theory Spec2Isabelle
  imports Complex_Main
begin

section \<open>Python values and exceptions\<close>

text \<open>
  The service moves Python values between an inference model, two FastAPI handlers and two
  HTTP clients. A Python \<open>float\<close> is either a finite number or one of the three special
  values; the code never computes with a score, it only passes it on.
\<close>

datatype pyfloat = Finite real | PosInf | NegInf | NaN

text \<open>
  A \<open>str\<close> is a list of characters, a \<open>dict\<close> with string keys an association list
  (looked up with \<open>map_of\<close>), a \<open>list\<close> a list.
\<close>

datatype pyval =
    PyNone
  | PyBool bool
  | PyInt int
  | PyFloat pyfloat
  | PyStr string
  | PyList "pyval list"
  | PyDict "(string \<times> pyval) list"

text \<open>
  Exceptions are values. \<open>Raised classes msg\<close> stands for an exception raised by a
  collaborator (the inference model, the network), with the names of its classes; the others
  are the exceptions that the code of the service and its libraries raise themselves.
\<close>

datatype pyexc =
    KeyError string
  | TypeError string
  | Raised "string list" string
  | HTTPStatusError nat string
  | ValidationError

text \<open>The classes an exception is an instance of, the most specific first. For \<open>Raised\<close> the
  collaborator names them; \<open>HTTPStatusError\<close> is httpx's subclass of \<open>HTTPError\<close>, and
  \<open>ValidationError\<close> is pydantic's.\<close>

fun exc_classes :: "pyexc \<Rightarrow> string list" where
  "exc_classes (KeyError k) = [''KeyError'', ''LookupError'', ''Exception'']"
| "exc_classes (TypeError m) = [''TypeError'', ''Exception'']"
| "exc_classes (Raised classes m) = classes"
| "exc_classes (HTTPStatusError st b) = [''HTTPStatusError'', ''HTTPError'', ''Exception'']"
| "exc_classes (ValidationError) = [''ValidationError'', ''ValueError'', ''Exception'']"

definition isinstance :: "pyexc \<Rightarrow> string \<Rightarrow> bool" where
  "isinstance e cls = (cls \<in> set (exc_classes e))"

text \<open>\<open>p[k]\<close> for a string key: a dict looks the key up, anything else is not subscriptable
  by a string.\<close>

fun getitem :: "pyval \<Rightarrow> string \<Rightarrow> pyexc + pyval" where
  "getitem (PyDict d) k = (case map_of d k of None \<Rightarrow> Inl (KeyError k) | Some v \<Rightarrow> Inr v)"
| "getitem v k = Inl (TypeError k)"

text \<open>A list comprehension \<open>[f(p) for p in ps]\<close> whose body may raise: the first exception
  ends it, and no list is built.\<close>

fun comprehension :: "('a \<Rightarrow> pyexc + 'b) \<Rightarrow> 'a list \<Rightarrow> pyexc + 'b list" where
  "comprehension f [] = Inr []"
| "comprehension f (p # ps) =
     (case f p of
        Inl e \<Rightarrow> Inl e
      | Inr y \<Rightarrow> (case comprehension f ps of Inl e \<Rightarrow> Inl e | Inr ys \<Rightarrow> Inr (y # ys)))"

text \<open>\<open>s[i:j]\<close> with integer bounds: a negative bound counts from the end, both are clamped
  to the sequence, and a slice whose end is before its start is empty.\<close>

definition py_slice :: "'a list \<Rightarrow> int \<Rightarrow> int \<Rightarrow> 'a list" where
  "py_slice xs i j =
     (let n = int (length xs);
          lo = (if i < 0 then max 0 (i + n) else min i n);
          hi = (if j < 0 then max 0 (j + n) else min j n)
      in take (nat (hi - lo)) (drop (nat lo) xs))"

section \<open>Schema layer (api/main.py)\<close>

record DetectionRequest =
  contexts :: "string list"
  question :: string
  answer :: string

subsection \<open>Response models (api/main.py under pydantic)\<close>

text \<open>
  The four response classes declare fields only. \<open>end\<close> is a keyword of Isabelle and two
  records cannot share a field name, so the fields are prefixed here; the names in the
  source are \<open>token\<close>, \<open>start\<close>, \<open>end\<close>, \<open>text\<close>, \<open>hallucination_score\<close> and \<open>predictions\<close>.
\<close>

record TokenDetectionItem =
  token :: string
  token_score :: pyfloat

record SpanDetectionItem =
  span_start :: int
  span_end :: int
  span_text :: string
  span_score :: pyfloat

record TokenDetectionResponse =
  token_predictions :: "TokenDetectionItem list"

record SpanDetectionResponse =
  span_predictions :: "SpanDetectionItem list"

section \<open>Detection gateway (api/main.py)\<close>

text \<open>
  The detector is the object built once at startup by \<open>init_detector\<close>. Its \<open>predict\<close> method
  takes the contexts, the question, the answer and the output format, and either returns
  the raw predictions or raises; it may change the detector's own state \<open>'d\<close>.
\<close>

type_synonym 'd predict =
  "'d \<Rightarrow> string list \<Rightarrow> string \<Rightarrow> string \<Rightarrow> string \<Rightarrow> (pyexc + pyval list) \<times> 'd"

text \<open>\<open>run_detector_safe\<close> as one request sees it: inside the lock, one call of \<open>predict\<close>
  with the fields of the request; an exception leaves through the \<open>async with\<close> unchanged.\<close>

definition run_detector_safe ::
  "'d predict \<Rightarrow> 'd \<Rightarrow> DetectionRequest \<Rightarrow> string \<Rightarrow> (pyexc + pyval list) \<times> 'd" where
  "run_detector_safe predict detector request output_format =
     predict detector (contexts request) (question request) (answer request) output_format"

definition token_item :: "pyval \<Rightarrow> pyexc + pyval" where
  "token_item p =
     (case getitem p ''token'' of
        Inl e \<Rightarrow> Inl e
      | Inr t \<Rightarrow>
          (case getitem p ''prob'' of
             Inl e \<Rightarrow> Inl e
           | Inr s \<Rightarrow> Inr (PyDict [(''token'', t), (''hallucination_score'', s)])))"

definition run_token_detection ::
  "'d predict \<Rightarrow> 'd \<Rightarrow> DetectionRequest \<Rightarrow> (pyexc + pyval) \<times> 'd" where
  "run_token_detection predict detector request =
     (case run_detector_safe predict detector request ''tokens'' of
        (Inl e, d') \<Rightarrow> (Inl e, d')
      | (Inr preds, d') \<Rightarrow>
          (case comprehension token_item preds of
             Inl e \<Rightarrow> (Inl e, d')
           | Inr preds_converted \<Rightarrow>
               (Inr (PyDict [(''predictions'', PyList preds_converted)]), d')))"

definition span_item :: "pyval \<Rightarrow> pyexc + pyval" where
  "span_item p =
     (case getitem p ''start'' of
        Inl e \<Rightarrow> Inl e
      | Inr s \<Rightarrow>
          (case getitem p ''end'' of
             Inl e \<Rightarrow> Inl e
           | Inr en \<Rightarrow>
               (case getitem p ''text'' of
                  Inl e \<Rightarrow> Inl e
                | Inr t \<Rightarrow>
                    (case getitem p ''confidence'' of
                       Inl e \<Rightarrow> Inl e
                     | Inr c \<Rightarrow>
                         Inr (PyDict [(''start'', s), (''end'', en), (''text'', t),
                                      (''hallucination_score'', c)])))))"

definition run_span_detection ::
  "'d predict \<Rightarrow> 'd \<Rightarrow> DetectionRequest \<Rightarrow> (pyexc + pyval) \<times> 'd" where
  "run_span_detection predict detector request =
     (case run_detector_safe predict detector request ''spans'' of
        (Inl e, d') \<Rightarrow> (Inl e, d')
      | (Inr preds, d') \<Rightarrow>
          (case comprehension span_item preds of
             Inl e \<Rightarrow> (Inl e, d')
           | Inr preds_converted \<Rightarrow>
               (Inr (PyDict [(''predictions'', PyList preds_converted)]), d')))"

text \<open>What a subscript returned, when it is a value of the kind asked for.\<close>

fun as_int :: "pyexc + pyval \<Rightarrow> int option" where
  "as_int (Inr (PyInt i)) = Some i"
| "as_int r = None"

fun as_str :: "pyexc + pyval \<Rightarrow> string option" where
  "as_str (Inr (PyStr t)) = Some t"
| "as_str r = None"

fun as_float :: "pyexc + pyval \<Rightarrow> pyfloat option" where
  "as_float (Inr (PyFloat x)) = Some x"
| "as_float r = None"

text \<open>
  Modelled from the spec: \<open>HallucinationDetector.predict\<close> of \<open>lettucedetect.models.inference\<close>,
  which \<open>api/main.py\<close> only imports and calls. For span output the spec gives each raw span
  a \<open>start\<close> and an \<open>end\<close> (integer character offsets into the answer, with
  \<open>0 <= start <= end <= len(answer)\<close>), a \<open>text\<close> (the substring \<open>answer[start:end]\<close>) and a
  \<open>confidence\<close> (a float).
\<close>

definition raw_span_contract :: "string \<Rightarrow> pyval \<Rightarrow> bool" where
  "raw_span_contract ans p =
     (case as_int (getitem p ''start'') of
        None \<Rightarrow> False
      | Some s \<Rightarrow>
          (case as_int (getitem p ''end'') of
             None \<Rightarrow> False
           | Some e \<Rightarrow>
               as_str (getitem p ''text'') = Some (py_slice ans s e) \<and>
               as_float (getitem p ''confidence'') \<noteq> None \<and>
               0 \<le> s \<and> s \<le> e \<and> e \<le> int (length ans)))"

section \<open>The gate (api/main.py: detector_lock and run_detector_safe)\<close>

text \<open>
  All handlers run as coroutines of one event loop, so a coroutine runs alone from one
  \<open>await\<close> to the next. A request that has called \<open>run_detector_safe\<close> is suspended in
  \<open>detector_lock.acquire()\<close>, or it holds the lock and awaits \<open>detector.predict\<close>, which runs
  in a worker thread, or it has left the \<open>async with\<close>, with the predictions or with the
  exception \<open>predict\<close> raised.
\<close>

datatype pc = Idle | Suspended | InPredict | Returned | Failed

text \<open>\<open>asyncio.Lock\<close>: the flag \<open>_locked\<close> and the queue \<open>_waiters\<close> of the futures of the
  suspended requests, each with the request that waits for it and whether it is done.
  No request is cancelled.\<close>

record Lock =
  locked :: bool
  waiters :: "(nat \<times> bool) list"

definition wake_up_first :: "Lock \<Rightarrow> Lock" where
  "wake_up_first l =
     (case waiters l of [] \<Rightarrow> l | (t, done) # ws \<Rightarrow> l\<lparr>waiters := (t, True) # ws\<rparr>)"

definition release :: "Lock \<Rightarrow> pyexc + Lock" where
  "release l =
     (if locked l then Inr (wake_up_first (l\<lparr>locked := False\<rparr>))
      else Inl (Raised [''RuntimeError'', ''Exception''] ''Lock is not acquired.''))"

record loop_state =
  detector_lock :: Lock
  pcs :: "nat \<Rightarrow> pc"

definition leave_async_with :: "nat \<Rightarrow> pc \<Rightarrow> loop_state \<Rightarrow> loop_state" where
  "leave_async_with t outcome s =
     (case release (detector_lock s) of
        Inr l \<Rightarrow> s\<lparr>detector_lock := l, pcs := (pcs s)(t := outcome)\<rparr>
      | Inl e \<Rightarrow> s\<lparr>pcs := (pcs s)(t := Failed)\<rparr>)"

text \<open>
  What the event loop can run next: request \<open>t\<close> calls \<open>run_detector_safe\<close> and reaches
  \<open>acquire\<close>, which takes the free lock or queues a future; a suspended request whose future
  is done resumes, leaves the queue and takes the lock; the worker thread of the request
  in \<open>predict\<close> returns or raises, and the request leaves the \<open>async with\<close>, which releases
  the lock.
\<close>

datatype event = Call nat | Wake nat | PredictReturns nat | PredictRaises nat

fun fire :: "event \<Rightarrow> loop_state \<Rightarrow> loop_state option" where
  "fire (Call t) s =
     (if pcs s t \<noteq> Idle then None
      else if \<not> locked (detector_lock s) \<and> waiters (detector_lock s) = []
      then Some (s\<lparr>detector_lock := (detector_lock s)\<lparr>locked := True\<rparr>,
                  pcs := (pcs s)(t := InPredict)\<rparr>)
      else Some (s\<lparr>detector_lock :=
                     (detector_lock s)\<lparr>waiters := waiters (detector_lock s) @ [(t, False)]\<rparr>,
                  pcs := (pcs s)(t := Suspended)\<rparr>))"
| "fire (Wake t) s =
     (if pcs s t = Suspended \<and> (t, True) \<in> set (waiters (detector_lock s))
      then Some (s\<lparr>detector_lock :=
                     (detector_lock s)\<lparr>waiters := remove1 (t, True) (waiters (detector_lock s)),
                                      locked := True\<rparr>,
                  pcs := (pcs s)(t := InPredict)\<rparr>)
      else None)"
| "fire (PredictReturns t) s =
     (if pcs s t = InPredict then Some (leave_async_with t Returned s) else None)"
| "fire (PredictRaises t) s =
     (if pcs s t = InPredict then Some (leave_async_with t Failed s) else None)"

fun run :: "event list \<Rightarrow> loop_state \<Rightarrow> loop_state option" where
  "run [] s = Some s"
| "run (e # es) s = (case fire e s of None \<Rightarrow> None | Some s' \<Rightarrow> run es s')"

definition startup :: loop_state where
  "startup = \<lparr>detector_lock = \<lparr>locked = False, waiters = []\<rparr>, pcs = (\<lambda>t. Idle)\<rparr>"

subsection \<open>Notions used to state the properties of the gate\<close>

text \<open>
  The invariant of the event loop: the lock is held exactly while a request is in
  \<open>predict\<close>, and by one request only; the queue holds the suspended requests, each once;
  only the first future of the queue can be done, and it is done exactly when the lock is
  free.
\<close>

definition gate_invariant :: "loop_state \<Rightarrow> bool" where
  "gate_invariant s =
     ((locked (detector_lock s) \<longleftrightarrow> (\<exists>t. pcs s t = InPredict))
      \<and> (\<forall>t u. pcs s t = InPredict \<longrightarrow> pcs s u = InPredict \<longrightarrow> t = u)
      \<and> distinct (map fst (waiters (detector_lock s)))
      \<and> fst ` set (waiters (detector_lock s)) = {t. pcs s t = Suspended}
      \<and> (\<forall>w \<in> set (tl (waiters (detector_lock s))). \<not> snd w)
      \<and> (waiters (detector_lock s) \<noteq> [] \<longrightarrow>
           snd (hd (waiters (detector_lock s))) = (\<not> locked (detector_lock s))))"

text \<open>An event that is not a new call: a wake-up, or the end of a \<open>predict\<close>.\<close>

fun is_call :: "event \<Rightarrow> bool" where
  "is_call (Call t) = True"
| "is_call e = False"

text \<open>How many such events a suspended request still has to wait for: the end of the
  running \<open>predict\<close> if there is one, then a wake-up and a \<open>predict\<close> for every request
  before it in the queue, then its own wake-up.\<close>

definition wait_rank :: "loop_state \<Rightarrow> nat \<Rightarrow> nat" where
  "wait_rank s t =
     2 * length (takeWhile (\<lambda>w. fst w \<noteq> t) (waiters (detector_lock s)))
       + (if locked (detector_lock s) then 2 else 1)"

section \<open>Transport binding (api/main.py under FastAPI)\<close>

text \<open>
  The two decorators register one POST route each. FastAPI adds its documentation pages,
  which Starlette serves for GET and HEAD.
\<close>

datatype handler = RunTokenDetection | RunSpanDetection

datatype endpoint = Docs | Detection handler

definition routes :: "(string \<times> string list \<times> endpoint) list" where
  "routes =
     [(''/openapi.json'', [''GET'', ''HEAD''], Docs),
      (''/docs'', [''GET'', ''HEAD''], Docs),
      (''/docs/oauth2-redirect'', [''GET'', ''HEAD''], Docs),
      (''/redoc'', [''GET'', ''HEAD''], Docs),
      (''/lettucedetect/token'', [''POST''], Detection RunTokenDetection),
      (''/lettucedetect/spans'', [''POST''], Detection RunSpanDetection)]"

datatype route_match = Matched endpoint | MethodNotAllowed | RedirectSlashes | NotFound

fun rstrip :: "char \<Rightarrow> string \<Rightarrow> string" where
  "rstrip c s = rev (dropWhile (\<lambda>x. x = c) (rev s))"

text \<open>
  Starlette's router: the first route whose path and method both match is called; a path
  that matches with another method is answered 405; a path that matches only with a
  trailing slash added or removed is redirected; anything else is answered 404.
\<close>

definition match_route :: "string \<Rightarrow> string \<Rightarrow> route_match" where
  "match_route http_method route_path =
     (case find (\<lambda>(p, ms, e). p = route_path \<and> http_method \<in> set ms) routes of
        Some (p, ms, e) \<Rightarrow> Matched e
      | None \<Rightarrow>
          (if route_path \<in> set (map fst routes) then MethodNotAllowed
           else if route_path \<noteq> ''/'' \<and>
                   (if route_path \<noteq> [] \<and> last route_path = CHR ''/''
                    then rstrip (CHR ''/'') route_path else route_path @ ''/'')
                     \<in> set (map fst routes)
           then RedirectSlashes
           else NotFound))"

datatype content = JSONContent pyval | PlainText string | DocsPage

record response =
  status_code :: nat
  content :: content

definition call_handler ::
  "handler \<Rightarrow> 'd predict \<Rightarrow> 'd \<Rightarrow> DetectionRequest \<Rightarrow> (pyexc + pyval) \<times> 'd" where
  "call_handler h predict detector request =
     (case h of
        RunTokenDetection \<Rightarrow> run_token_detection predict detector request
      | RunSpanDetection \<Rightarrow> run_span_detection predict detector request)"

text \<open>
  One HTTP exchange. \<open>parse_body\<close> is pydantic's validation of the body as a
  \<open>DetectionRequest\<close> (\<open>None\<close> when it fails, answered 422) and \<open>serialize_response\<close> is
  FastAPI's validation of the returned dict against the route's \<open>response_model\<close> (\<open>None\<close>
  when it fails). An exception that leaves the handler is answered by Starlette's
  \<open>ServerErrorMiddleware\<close> with a plain 500.
\<close>

definition app ::
  "'d predict \<Rightarrow> (string \<Rightarrow> DetectionRequest option) \<Rightarrow> (handler \<Rightarrow> pyval \<Rightarrow> pyval option) \<Rightarrow>
   'd \<Rightarrow> string \<Rightarrow> string \<Rightarrow> string \<Rightarrow> response \<times> 'd" where
  "app predict parse_body serialize_response detector http_method route_path body =
     (case match_route http_method route_path of
        NotFound \<Rightarrow>
          (\<lparr>status_code = 404, content = JSONContent (PyDict [(''detail'', PyStr ''Not Found'')])\<rparr>,
           detector)
      | MethodNotAllowed \<Rightarrow>
          (\<lparr>status_code = 405,
            content = JSONContent (PyDict [(''detail'', PyStr ''Method Not Allowed'')])\<rparr>, detector)
      | RedirectSlashes \<Rightarrow> (\<lparr>status_code = 307, content = PlainText []\<rparr>, detector)
      | Matched Docs \<Rightarrow> (\<lparr>status_code = 200, content = DocsPage\<rparr>, detector)
      | Matched (Detection h) \<Rightarrow>
          (case parse_body body of
             None \<Rightarrow>
               (\<lparr>status_code = 422, content = JSONContent (PyDict [(''detail'', PyList [])])\<rparr>,
                detector)
           | Some request \<Rightarrow>
               (case call_handler h predict detector request of
                  (Inl e, d') \<Rightarrow>
                    (\<lparr>status_code = 500, content = PlainText ''Internal Server Error''\<rparr>, d')
                | (Inr returned, d') \<Rightarrow>
                    (case serialize_response h returned of
                       None \<Rightarrow>
                         (\<lparr>status_code = 500, content = PlainText ''Internal Server Error''\<rparr>, d')
                     | Some json \<Rightarrow> (\<lparr>status_code = 200, content = JSONContent json\<rparr>, d')))))"

section \<open>Client binding (api/client.py)\<close>

text \<open>A URL, as \<open>urllib.parse.urlparse\<close> splits it.\<close>

record url =
  scheme :: string
  netloc :: string
  path :: string
  params :: string
  query :: string
  fragment :: string

definition uses_relative :: "string list" where
  "uses_relative = ['''', ''ftp'', ''http'', ''gopher'', ''nntp'', ''imap'', ''wais'', ''file'',
     ''https'', ''shttp'', ''mms'', ''prospero'', ''rtsp'', ''rtsps'', ''rtspu'', ''sftp'',
     ''svn'', ''svn+ssh'', ''ws'', ''wss'']"

definition uses_netloc :: "string list" where
  "uses_netloc = ['''', ''ftp'', ''http'', ''gopher'', ''nntp'', ''telnet'', ''imap'', ''wais'',
     ''file'', ''mms'', ''https'', ''shttp'', ''snews'', ''prospero'', ''rtsp'', ''rtsps'',
     ''rtspu'', ''rsync'', ''svn'', ''svn+ssh'', ''sftp'', ''nfs'', ''git'', ''git+ssh'', ''ws'',
     ''wss'']"

text \<open>\<open>s.split(c)\<close> and \<open>c.join(ws)\<close>.\<close>

fun split_on :: "char \<Rightarrow> string \<Rightarrow> string list" where
  "split_on c [] = [[]]"
| "split_on c (x # xs) =
     (if x = c then [] # split_on c xs
      else (case split_on c xs of [] \<Rightarrow> [[x]] | w # ws \<Rightarrow> (x # w) # ws))"

fun join_with :: "char \<Rightarrow> string list \<Rightarrow> string" where
  "join_with c [] = []"
| "join_with c [w] = w"
| "join_with c (w # ws) = w @ c # join_with c ws"

text \<open>The loop of \<open>urljoin\<close> that resolves the \<open>.\<close> and \<open>..\<close> segments; \<open>..\<close> on an empty
  result is ignored.\<close>

fun resolve_segments :: "string list \<Rightarrow> string list \<Rightarrow> string list" where
  "resolve_segments [] resolved_path = resolved_path"
| "resolve_segments (seg # segs) resolved_path =
     (if seg = ''..'' then resolve_segments segs (butlast resolved_path)
      else if seg = ''.'' then resolve_segments segs resolved_path
      else resolve_segments segs (resolved_path @ [seg]))"

definition relative_reference :: "string \<Rightarrow> url" where
  "relative_reference p =
     \<lparr>scheme = [], netloc = [], path = p, params = [], query = [], fragment = []\<rparr>"

text \<open>\<open>urlunsplit\<close> puts a slash before a path that lacks one when the URL has a network
  location or its scheme takes one.\<close>

definition unsplit_path :: "string \<Rightarrow> string \<Rightarrow> string \<Rightarrow> string" where
  "unsplit_path sch loc p =
     (if (loc \<noteq> [] \<or> (sch \<noteq> [] \<and> sch \<in> set uses_netloc) \<or> take 2 p = ''//'') \<and>
         p \<noteq> [] \<and> take 1 p \<noteq> ''/''
      then CHR ''/'' # p else p)"

text \<open>
  \<open>urllib.parse.urljoin(base, url)\<close> for a reference \<open>url\<close> that is a path and nothing else
  (no scheme, network location, parameters, query or fragment), which is what both
  endpoint constants are. The base is given by its components, and so is the result.
\<close>

definition urljoin :: "url \<Rightarrow> string \<Rightarrow> url" where
  "urljoin base p =
     (if base = relative_reference [] then relative_reference p
      else if p = [] then base
      else if scheme base \<notin> set uses_relative then relative_reference p
      else
        (let loc = (if scheme base \<in> set uses_netloc then netloc base else []);
             base_parts = split_on (CHR ''/'') (path base);
             base_parts = (if last base_parts \<noteq> [] then butlast base_parts else base_parts);
             joined = base_parts @ split_on (CHR ''/'') p;
             segments =
               (if take 1 p = ''/'' then split_on (CHR ''/'') p
                else if length joined < 2 then joined
                else hd joined # filter (\<lambda>w. w \<noteq> []) (butlast (tl joined)) @ [last joined]);
             resolved_path = resolve_segments segments [];
             resolved_path =
               (if last segments \<in> {''.'', ''..''} then resolved_path @ [[]] else resolved_path);
             new_path = join_with (CHR ''/'') resolved_path
         in \<lparr>scheme = scheme base,
             netloc = loc,
             path = unsplit_path (scheme base) loc (if new_path = [] then ''/'' else new_path),
             params = [], query = [], fragment = []\<rparr>))"

record http_request =
  req_method :: string
  req_url :: url
  req_json :: "(string \<times> pyval) list"

record http_response =
  resp_status_code :: nat
  resp_text :: string

text \<open>
  The network as the client sees it: a request is answered with a response or fails with
  an exception of the transport, and the world \<open>'n\<close> behind it moves on. A function that
  sends twice applies it twice.
\<close>

type_synonym 'n transport = "'n \<Rightarrow> http_request \<Rightarrow> (pyexc + http_response) \<times> 'n"

text \<open>A response model is used through \<open>model_validate_json\<close> only: the text is parsed and
  validated into a complete instance, or pydantic raises \<open>ValidationError\<close> (\<open>None\<close>).\<close>

type_synonym 'r response_model = "string \<Rightarrow> 'r option"

definition model_validate_json :: "'r response_model \<Rightarrow> string \<Rightarrow> pyexc + 'r" where
  "model_validate_json response_model txt =
     (case response_model txt of None \<Rightarrow> Inl ValidationError | Some r \<Rightarrow> Inr r)"

text \<open>\<open>dict(request)\<close>: the fields of the model in their order.\<close>

definition dict_of_request :: "DetectionRequest \<Rightarrow> (string \<times> pyval) list" where
  "dict_of_request request =
     [(''contexts'', PyList (map PyStr (contexts request))),
      (''question'', PyStr (question request)),
      (''answer'', PyStr (answer request))]"

text \<open>httpx's \<open>Response.raise_for_status\<close>: any status outside 200..299 raises
  \<open>HTTPStatusError\<close>, which holds the response.\<close>

definition raise_for_status :: "http_response \<Rightarrow> pyexc + unit" where
  "raise_for_status r =
     (if 200 \<le> resp_status_code r \<and> resp_status_code r \<le> 299 then Inr ()
      else Inl (HTTPStatusError (resp_status_code r) (resp_text r)))"

definition httpx_request_wrapper ::
  "'n transport \<Rightarrow> string \<Rightarrow> url \<Rightarrow> DetectionRequest \<Rightarrow> 'r response_model \<Rightarrow> 'n \<Rightarrow>
   (pyexc + 'r) \<times> 'n" where
  "httpx_request_wrapper net method u request response_model n =
     (case net n \<lparr>req_method = method, req_url = u, req_json = dict_of_request request\<rparr> of
        (Inl e, n') \<Rightarrow> (Inl e, n')
      | (Inr r, n') \<Rightarrow>
          (case raise_for_status r of
             Inl e \<Rightarrow> (Inl e, n')
           | Inr ok \<Rightarrow> (model_validate_json response_model (resp_text r), n')))"

text \<open>The asynchronous wrapper opens an \<open>AsyncClient\<close>, awaits the one request on it and
  closes it before it looks at the response.\<close>

definition httpx_request_wrapper_async ::
  "'n transport \<Rightarrow> string \<Rightarrow> url \<Rightarrow> DetectionRequest \<Rightarrow> 'r response_model \<Rightarrow> 'n \<Rightarrow>
   (pyexc + 'r) \<times> 'n" where
  "httpx_request_wrapper_async net method u request response_model n =
     (case net n \<lparr>req_method = method, req_url = u, req_json = dict_of_request request\<rparr> of
        (Inl e, n') \<Rightarrow> (Inl e, n')
      | (Inr r, n') \<Rightarrow>
          (case raise_for_status r of
             Inl e \<Rightarrow> (Inl e, n')
           | Inr ok \<Rightarrow> (model_validate_json response_model (resp_text r), n')))"

definition TOKEN_ENDPOINT :: string where
  "TOKEN_ENDPOINT = ''/v1/lettucedetect/token''"

definition SPANS_ENDPOINT :: string where
  "SPANS_ENDPOINT = ''/v1/lettucedetect/spans''"

record LettuceClientBase =
  base_url :: url

definition LettuceClient_detect_token ::
  "'n transport \<Rightarrow> 't response_model \<Rightarrow> LettuceClientBase \<Rightarrow> string list \<Rightarrow> string \<Rightarrow> string \<Rightarrow>
   'n \<Rightarrow> (pyexc + 't) \<times> 'n" where
  "LettuceClient_detect_token net TokenDetectionResponse self ctxs q a n =
     (let request = \<lparr>contexts = ctxs, question = q, answer = a\<rparr>;
          u = urljoin (base_url self) TOKEN_ENDPOINT
      in httpx_request_wrapper net ''post'' u request TokenDetectionResponse n)"

definition LettuceClient_detect_spans ::
  "'n transport \<Rightarrow> 's response_model \<Rightarrow> LettuceClientBase \<Rightarrow> string list \<Rightarrow> string \<Rightarrow> string \<Rightarrow>
   'n \<Rightarrow> (pyexc + 's) \<times> 'n" where
  "LettuceClient_detect_spans net SpanDetectionResponse self ctxs q a n =
     (let request = \<lparr>contexts = ctxs, question = q, answer = a\<rparr>;
          u = urljoin (base_url self) SPANS_ENDPOINT
      in httpx_request_wrapper net ''post'' u request SpanDetectionResponse n)"

definition LettuceClientAsync_detect_token ::
  "'n transport \<Rightarrow> 't response_model \<Rightarrow> LettuceClientBase \<Rightarrow> string list \<Rightarrow> string \<Rightarrow> string \<Rightarrow>
   'n \<Rightarrow> (pyexc + 't) \<times> 'n" where
  "LettuceClientAsync_detect_token net TokenDetectionResponse self ctxs q a n =
     (let request = \<lparr>contexts = ctxs, question = q, answer = a\<rparr>;
          u = urljoin (base_url self) TOKEN_ENDPOINT
      in httpx_request_wrapper_async net ''post'' u request TokenDetectionResponse n)"

definition LettuceClientAsync_detect_spans ::
  "'n transport \<Rightarrow> 's response_model \<Rightarrow> LettuceClientBase \<Rightarrow> string list \<Rightarrow> string \<Rightarrow> string \<Rightarrow>
   'n \<Rightarrow> (pyexc + 's) \<times> 'n" where
  "LettuceClientAsync_detect_spans net SpanDetectionResponse self ctxs q a n =
     (let request = \<lparr>contexts = ctxs, question = q, answer = a\<rparr>;
          u = urljoin (base_url self) SPANS_ENDPOINT
      in httpx_request_wrapper_async net ''post'' u request SpanDetectionResponse n)"

subsection \<open>A client call against this server\<close>

text \<open>httpx sends the method in upper case (\<open>method.upper()\<close>).\<close>

definition upper :: "string \<Rightarrow> string" where
  "upper s =
     map (\<lambda>c. if 97 \<le> (of_char c :: nat) \<and> (of_char c :: nat) \<le> 122
              then char_of ((of_char c :: nat) - 32) else c) s"

text \<open>
  The transport that carries a request of the client to \<open>app\<close> and the response back: the
  server sees the method, the path of the URL and the encoded body; the client sees the
  status and the text of the response. \<open>encode_json\<close> and \<open>render\<close> stand for the JSON
  encoders of httpx and Starlette. The world behind this transport is the detector.
\<close>

definition deliver ::
  "'d predict \<Rightarrow> (string \<Rightarrow> DetectionRequest option) \<Rightarrow> (handler \<Rightarrow> pyval \<Rightarrow> pyval option) \<Rightarrow>
   ((string \<times> pyval) list \<Rightarrow> string) \<Rightarrow> (content \<Rightarrow> string) \<Rightarrow> 'd transport" where
  "deliver predict parse_body serialize_response encode_json render detector rq =
     (case app predict parse_body serialize_response detector
             (upper (req_method rq)) (path (req_url rq)) (encode_json (req_json rq)) of
        (resp, d') \<Rightarrow>
          (Inr \<lparr>resp_status_code = status_code resp, resp_text = render (content resp)\<rparr>, d'))"

section \<open>Launch script (api/serve.py)\<close>

text \<open>
  \<open>_argparse\<close> builds an \<open>argparse.ArgumentParser\<close> with two options that store one string
  each, \<open>--model\<close> and \<open>--method\<close>, the second with \<open>choices=["transformer"]\<close>; argparse adds
  \<open>-h\<close> and \<open>--help\<close>. What follows is \<open>parse_args\<close> of CPython's argparse for this parser. A
  character here is one of the first 256 code points; the decimal digits among them are the
  ASCII digits.

  The script runs on the interpreter it is started with, and the releases of argparse
  differ in two places that this parser can reach. In CPython 3.11.2 \<open>_get_values\<close> removes
  the first \<open>--\<close> from the strings of every action, also of an option, and a character after
  \<open>-h\<close> that is no option is an error before any action runs. CPython 3.11.10 and 3.12.3
  remove \<open>--\<close> for positional arguments only, refuse an \<open>=\<close> after \<open>-h\<close>, and leave an unknown
  character after \<open>-h\<close> over while help still runs. The record \<open>argparse\<close> says which
  behaviour the interpreter has in each of the two places.
\<close>

record argparse =
  strips_option_dashes :: bool
  legacy_flag_tail :: bool

definition cpython_3_11_2 :: argparse where
  "cpython_3_11_2 = \<lparr>strips_option_dashes = True, legacy_flag_tail = True\<rparr>"

definition cpython_3_11_10 :: argparse where
  "cpython_3_11_10 = \<lparr>strips_option_dashes = False, legacy_flag_tail = False\<rparr>"

datatype action = HelpAction | ModelAction | MethodAction

definition option_string_actions :: "(string \<times> action) list" where
  "option_string_actions =
     [(''-h'', HelpAction), (''--help'', HelpAction),
      (''--model'', ModelAction), (''--method'', MethodAction)]"

definition choices :: "action \<Rightarrow> string list option" where
  "choices a = (case a of MethodAction \<Rightarrow> Some [''transformer''] | _ \<Rightarrow> None)"

text \<open>An attribute of the namespace is the string that a store action got, or the list that
  \<open>_get_values\<close> makes when it is left with no string or with several.\<close>

record Namespace =
  arg_model :: pyval
  arg_method :: pyval

definition defaults :: Namespace where
  "defaults = \<lparr>arg_model = PyStr ''KRLabsOrg/lettucedect-base-modernbert-en-v1'',
               arg_method = PyStr ''transformer''\<rparr>"

text \<open>\<open>parser.error\<close> exits with status 2, the help action with status 0.\<close>

datatype exit = SystemExit nat

definition startswith :: "string \<Rightarrow> string \<Rightarrow> bool" where
  "startswith s p = (take (length p) s = p)"

text \<open>\<open>s.partition('=')\<close>: the part before the first \<open>=\<close>, the separator, the part after.\<close>

definition partition_eq :: "string \<Rightarrow> string \<times> string \<times> string" where
  "partition_eq s =
     (if CHR ''='' \<in> set s
      then (takeWhile (\<lambda>c. c \<noteq> CHR ''='') s, ''='', tl (dropWhile (\<lambda>c. c \<noteq> CHR ''='') s))
      else (s, [], []))"

definition is_digit :: "char \<Rightarrow> bool" where
  "is_digit c = (c \<in> set ''0123456789'')"

text \<open>The parser's \<open>_negative_number_matcher\<close>, \<open>'^-\d+$|^-\d*\.\d+$'\<close>; \<open>$\<close> also matches
  before a newline that ends the string.\<close>

definition negative_number_like :: "string \<Rightarrow> bool" where
  "negative_number_like s =
     (let t = (if s \<noteq> [] \<and> last s = CHR 0x0A then butlast s else s) in
      case t of
        [] \<Rightarrow> False
      | c # r \<Rightarrow>
          c = CHR ''-'' \<and>
          (let ds = takeWhile is_digit r; rest = dropWhile is_digit r in
           case rest of
             [] \<Rightarrow> ds \<noteq> []
           | d # es \<Rightarrow> d = CHR ''.'' \<and> es \<noteq> [] \<and> list_all is_digit es))"

text \<open>An option tuple: the action (\<open>None\<close> for an option the parser does not know), the
  option string, the separator and the explicit argument.\<close>

datatype optional =
    Positional
  | Ambiguous
  | Optional "action option" string "string option" "string option"

definition get_option_tuples ::
  "string \<Rightarrow> (action option \<times> string \<times> string option \<times> string option) list" where
  "get_option_tuples option_string =
     (if take 2 option_string = ''--'' then
        (case partition_eq option_string of
           (option_prefix, sep, explicit_arg) \<Rightarrow>
             map (\<lambda>(os, a). (Some a, os,
                             if sep = [] then None else Some sep,
                             if sep = [] then None else Some explicit_arg))
               (filter (\<lambda>(os, a). startswith os option_prefix) option_string_actions))
      else
        concat (map (\<lambda>(os, a).
                  if os = take 2 option_string
                  then [(Some a, os, Some [], Some (drop 2 option_string))]
                  else if startswith os option_string then [(Some a, os, None, None)]
                  else [])
                option_string_actions))"

definition parse_optional :: "string \<Rightarrow> optional" where
  "parse_optional arg_string =
     (if arg_string = [] then Positional
      else if hd arg_string \<noteq> CHR ''-'' then Positional
      else
        (case map_of option_string_actions arg_string of
           Some a \<Rightarrow> Optional (Some a) arg_string None None
         | None \<Rightarrow>
             if length arg_string = 1 then Positional
             else
               (case partition_eq arg_string of
                  (option_string, sep, explicit_arg) \<Rightarrow>
                    (case (if sep \<noteq> [] then map_of option_string_actions option_string else None) of
                       Some a \<Rightarrow> Optional (Some a) option_string (Some sep) (Some explicit_arg)
                     | None \<Rightarrow>
                         (case get_option_tuples arg_string of
                            [] \<Rightarrow>
                              if negative_number_like arg_string then Positional
                              else if CHR '' '' \<in> set arg_string then Positional
                              else Optional None arg_string None None
                          | [(a, os, sp, ex)] \<Rightarrow> Optional a os sp ex
                          | _ \<Rightarrow> Ambiguous)))))"

text \<open>
  The help action takes no argument. After \<open>-h\<close> the rest of the string is read as more
  single-dash options. In the later releases an \<open>=\<close> or a \<open>-\<close> there is an error, another
  \<open>h\<close> is help again, and anything else is left over while help still runs. In the earlier
  ones another \<open>h\<close> is help again and anything else is an error. The result is the exit
  status.
\<close>

fun short_help :: "argparse \<Rightarrow> bool \<Rightarrow> string \<Rightarrow> nat" where
  "short_help lib sep [] = 2"
| "short_help lib sep (c # cs) =
     (if legacy_flag_tail lib then
        (if c = CHR ''h'' then (case cs of [] \<Rightarrow> 0 | d # ds \<Rightarrow> short_help lib sep cs) else 2)
      else if sep \<or> c = CHR ''-'' then 2
      else if c = CHR ''h'' then
        (case cs of
           [] \<Rightarrow> 0
         | d # ds \<Rightarrow> if d = CHR ''='' then short_help lib True ds else short_help lib False cs)
      else 0)"

definition help_exit :: "argparse \<Rightarrow> string \<Rightarrow> string option \<Rightarrow> string option \<Rightarrow> exit" where
  "help_exit lib option_string sep explicit_arg =
     (case explicit_arg of
        None \<Rightarrow> SystemExit 0
      | Some e \<Rightarrow>
          if take 2 option_string \<noteq> ''--''
          then SystemExit (short_help lib (sep \<noteq> None \<and> sep \<noteq> Some []) e)
          else SystemExit 2)"

text \<open>\<open>_check_value\<close>: a value must be one of the choices, if the action has any.\<close>

definition check_value :: "action \<Rightarrow> string \<Rightarrow> bool" where
  "check_value a v = (case choices a of Some cs \<Rightarrow> v \<in> set cs | None \<Rightarrow> True)"

text \<open>
  \<open>_get_values\<close> for an option that takes one argument (\<open>nargs=None\<close>, no \<open>type\<close>): the first
  \<open>--\<close> is removed where the release does that for options; exactly one string left is checked
  and is the value; otherwise the value is the list of the strings left, each of them
  checked.
\<close>

definition get_values :: "argparse \<Rightarrow> action \<Rightarrow> string list \<Rightarrow> exit + pyval" where
  "get_values lib a arg_strings =
     (let strings = (if strips_option_dashes lib then remove1 ''--'' arg_strings else arg_strings)
      in case strings of
           [v] \<Rightarrow> if check_value a v then Inr (PyStr v) else Inl (SystemExit 2)
         | _ \<Rightarrow>
             if list_all (check_value a) strings then Inr (PyList (map PyStr strings))
             else Inl (SystemExit 2))"

text \<open>\<open>take_action\<close>: the values are computed and the action is called; a store action sets
  its attribute of the namespace, the help action prints the help and exits.\<close>

definition take_action ::
  "argparse \<Rightarrow> action \<Rightarrow> string list \<Rightarrow> Namespace \<Rightarrow> exit + Namespace" where
  "take_action lib a arg_strings namespace =
     (case a of
        HelpAction \<Rightarrow> Inl (SystemExit 0)
      | ModelAction \<Rightarrow>
          (case get_values lib a arg_strings of
             Inl x \<Rightarrow> Inl x
           | Inr v \<Rightarrow> Inr (namespace\<lparr>arg_model := v\<rparr>))
      | MethodAction \<Rightarrow>
          (case get_values lib a arg_strings of
             Inl x \<Rightarrow> Inl x
           | Inr v \<Rightarrow> Inr (namespace\<lparr>arg_method := v\<rparr>)))"

definition is_argument :: "string \<Rightarrow> bool" where
  "is_argument v = (v \<noteq> ''--'' \<and> parse_optional v = Positional)"

text \<open>
  The options are consumed from left to right. The parser has no positional argument, so
  every string that is not an option or the argument of one is left over, and so is
  everything from \<open>--\<close> on.
\<close>

fun consume_args ::
  "argparse \<Rightarrow> string list \<Rightarrow> Namespace \<Rightarrow> string list \<Rightarrow> exit + Namespace \<times> string list" where
  "consume_args lib [] namespace extras = Inr (namespace, extras)"
| "consume_args lib (arg_string # rest) namespace extras =
     (if arg_string = ''--'' then Inr (namespace, extras @ arg_string # rest)
      else
        (case parse_optional arg_string of
           Positional \<Rightarrow> consume_args lib rest namespace (extras @ [arg_string])
         | Ambiguous \<Rightarrow> Inl (SystemExit 2)
         | Optional None os sep ex \<Rightarrow> consume_args lib rest namespace (extras @ [arg_string])
         | Optional (Some HelpAction) os sep ex \<Rightarrow> Inl (help_exit lib os sep ex)
         | Optional (Some a) os sep (Some e) \<Rightarrow>
             (case take_action lib a [e] namespace of
                Inl x \<Rightarrow> Inl x
              | Inr namespace' \<Rightarrow> consume_args lib rest namespace' extras)
         | Optional (Some a) os sep None \<Rightarrow>
             (case rest of
                [] \<Rightarrow> Inl (SystemExit 2)
              | v # rest' \<Rightarrow>
                  if is_argument v then
                    (case take_action lib a [v] namespace of
                       Inl x \<Rightarrow> Inl x
                     | Inr namespace' \<Rightarrow> consume_args lib rest' namespace' extras)
                  else Inl (SystemExit 2))))"

text \<open>
  \<open>parse_args\<close>: every string before \<open>--\<close> is classified first, and an ambiguous
  abbreviation is an error at once; then the options are consumed; strings left over are
  an error.
\<close>

definition parse_args :: "argparse \<Rightarrow> string list \<Rightarrow> exit + Namespace" where
  "parse_args lib argv =
     (if list_ex (\<lambda>a. parse_optional a = Ambiguous) (takeWhile (\<lambda>a. a \<noteq> ''--'') argv)
      then Inl (SystemExit 2)
      else
        (case consume_args lib argv defaults [] of
           Inl x \<Rightarrow> Inl x
         | Inr (namespace, extras) \<Rightarrow> if extras \<noteq> [] then Inl (SystemExit 2) else Inr namespace))"

text \<open>
  \<open>_run_fastapi\<close> puts the two settings into a copy of the environment and calls
  \<open>subprocess.run\<close> once, for \<open>fastapi dev main.py\<close>. Before it starts anything,
  \<open>subprocess.run\<close> encodes the environment with \<open>os.fsencode\<close>, which raises \<open>TypeError\<close> for a
  value that is no string, and then refuses a value with a null character. \<open>main\<close> gets to
  \<open>_run_fastapi\<close> only with the namespace \<open>_argparse\<close> returned. The result of \<open>main\<close> is the
  list of the subprocesses it asked the system to start, or what left it: the exit of the
  parser or an exception.
\<close>

record subprocess =
  command :: "string list"
  env_updates :: "(string \<times> string) list"

text \<open>\<open>type(v).__name__\<close>.\<close>

definition type_name :: "pyval \<Rightarrow> string" where
  "type_name v =
     (case v of
        PyNone \<Rightarrow> ''NoneType'' | PyBool b \<Rightarrow> ''bool'' | PyInt i \<Rightarrow> ''int''
      | PyFloat x \<Rightarrow> ''float'' | PyStr s \<Rightarrow> ''str'' | PyList l \<Rightarrow> ''list''
      | PyDict d \<Rightarrow> ''dict'')"

definition fsencode :: "pyval \<Rightarrow> pyexc + string" where
  "fsencode v =
     (case v of
        PyStr s \<Rightarrow> Inr s
      | _ \<Rightarrow> Inl (TypeError (''expected str, bytes or os.PathLike object, not '' @ type_name v)))"

definition run_fastapi :: "Namespace \<Rightarrow> pyexc + subprocess list" where
  "run_fastapi args =
     (case fsencode (arg_model args) of
        Inl e \<Rightarrow> Inl e
      | Inr model_setting \<Rightarrow>
          (case fsencode (arg_method args) of
             Inl e \<Rightarrow> Inl e
           | Inr method_setting \<Rightarrow>
               if CHR 0x00 \<in> set model_setting \<or> CHR 0x00 \<in> set method_setting
               then Inl (Raised [''ValueError'', ''Exception''] ''embedded null byte'')
               else Inr [\<lparr>command = [''fastapi'', ''dev'', ''main.py''],
                          env_updates = [(''LETTUCEDETECT_MODEL'', model_setting),
                                         (''LETTUCEDETECT_METHOD'', method_setting)]\<rparr>]))"

datatype uncaught = Exit exit | Exception pyexc

definition main :: "argparse \<Rightarrow> string list \<Rightarrow> uncaught + subprocess list" where
  "main lib argv =
     (case parse_args lib argv of
        Inl x \<Rightarrow> Inl (Exit x)
      | Inr args \<Rightarrow>
          (case run_fastapi args of
             Inl e \<Rightarrow> Inl (Exception e)
           | Inr started \<Rightarrow> Inr started))"

section \<open>Concrete inputs\<close>

text \<open>The scenario of the spec, a detector that counts its calls and answers it, and a
  detector that fails.\<close>

definition example_request :: DetectionRequest where
  "example_request =
     \<lparr>contexts = [''France is a country in Europe. The capital of France is Paris.''],
      question = ''What is the capital of France?'',
      answer = ''The capital of France is Paris.''\<rparr>"

definition example_tokens :: "pyval list" where
  "example_tokens =
     [PyDict [(''token'', PyStr ''The''), (''pred'', PyInt 0), (''prob'', PyFloat (Finite (1 / 100)))],
      PyDict [(''token'', PyStr ''Paris''), (''pred'', PyInt 1), (''prob'', PyFloat (Finite (9 / 10)))]]"

definition example_spans :: "pyval list" where
  "example_spans =
     [PyDict [(''start'', PyInt 25), (''end'', PyInt 30), (''text'', PyStr ''Paris''),
              (''confidence'', PyFloat (Finite (9 / 10)))]]"

definition example_predict :: "nat predict" where
  "example_predict calls ctxs q a output_format =
     (if output_format = ''tokens'' then Inr example_tokens
      else if output_format = ''spans'' then Inr example_spans
      else Inl (Raised [''ValueError'', ''Exception''] ''Invalid output_format''),
      Suc calls)"

definition failing_predict :: "nat predict" where
  "failing_predict calls ctxs q a output_format =
     (Inl (Raised [''RuntimeError'', ''Exception''] ''CUDA out of memory''), Suc calls)"

text \<open>A client for a server on the local machine, a network that counts the requests it
  carries and answers each with a fixed response, and a response model that accepts one
  text only.\<close>

definition example_client :: LettuceClientBase where
  "example_client =
     \<lparr>base_url = \<lparr>scheme = ''http'', netloc = ''127.0.0.1:8000'', path = [], params = [],
                   query = [], fragment = []\<rparr>\<rparr>"

definition answering :: "http_response \<Rightarrow> nat transport" where
  "answering r sent rq = (Inr r, Suc sent)"

definition example_model :: "nat response_model" where
  "example_model txt = (if txt = ''ok'' then Some 7 else None)"

text \<open>The event loop after two calls: request 0 is in \<open>predict\<close> and request 1 waits.\<close>

definition busy_state :: loop_state where
  "busy_state =
     \<lparr>detector_lock = \<lparr>locked = True, waiters = [(1, False)]\<rparr>,
      pcs = (\<lambda>t. Idle)(0 := InPredict, 1 := Suspended)\<rparr>"

text \<open>Stand-ins for the validation of the request body, for the serialization of the
  response and for the two JSON encoders.\<close>

definition accept_body :: "string \<Rightarrow> DetectionRequest option" where
  "accept_body body = Some example_request"

definition keep_returned :: "handler \<Rightarrow> pyval \<Rightarrow> pyval option" where
  "keep_returned h v = Some v"

definition encode_nothing :: "(string \<times> pyval) list \<Rightarrow> string" where
  "encode_nothing j = []"

definition render_kind :: "content \<Rightarrow> string" where
  "render_kind c = (case c of JSONContent j \<Rightarrow> ''json'' | PlainText s \<Rightarrow> s | DocsPage \<Rightarrow> ''docs'')"

section \<open>Properties of the detection gateway\<close>

lemma comprehension_InrD:
  "comprehension f ps = Inr ys \<Longrightarrow> list_all2 (\<lambda>p y. f p = Inr y) ps ys"
proof (induction ps arbitrary: ys)
  case Nil
  then show ?case by simp
next
  case (Cons p ps)
  from Cons.prems obtain y zs where "f p = Inr y" "comprehension f ps = Inr zs" "ys = y # zs"
    by (cases "f p"; cases "comprehension f ps") auto
  with Cons.IH show ?case by simp
qed

lemma comprehension_InrI:
  "list_all2 (\<lambda>p y. f p = Inr y) ps ys \<Longrightarrow> comprehension f ps = Inr ys"
  by (induction rule: list_all2_induct) simp_all

lemma comprehension_total:
  assumes "\<forall>p\<in>set ps. \<exists>y. f p = Inr y"
  shows "\<exists>ys. comprehension f ps = Inr ys"
  using assms by (induction ps) auto

lemma token_item_Inr_iff:
  "token_item p = Inr y \<longleftrightarrow>
     (\<exists>t s. getitem p ''token'' = Inr t \<and> getitem p ''prob'' = Inr s \<and>
            y = PyDict [(''token'', t), (''hallucination_score'', s)])"
  by (cases "getitem p ''token''"; cases "getitem p ''prob''") (auto simp: token_item_def)

lemma token_item_fields:
  assumes "token_item p = Inr y"
  shows "getitem y ''token'' = getitem p ''token'' \<and>
         getitem y ''hallucination_score'' = getitem p ''prob''"
  using assms by (auto simp: token_item_Inr_iff)

lemma span_item_Inr_iff:
  "span_item p = Inr y \<longleftrightarrow>
     (\<exists>s e t c. getitem p ''start'' = Inr s \<and> getitem p ''end'' = Inr e \<and>
        getitem p ''text'' = Inr t \<and> getitem p ''confidence'' = Inr c \<and>
        y = PyDict [(''start'', s), (''end'', e), (''text'', t), (''hallucination_score'', c)])"
  by (cases "getitem p ''start''"; cases "getitem p ''end''"; cases "getitem p ''text''";
      cases "getitem p ''confidence''") (auto simp: span_item_def)

lemma span_item_fields:
  assumes "span_item p = Inr y"
  shows "getitem y ''start'' = getitem p ''start'' \<and> getitem y ''end'' = getitem p ''end'' \<and>
         getitem y ''text'' = getitem p ''text'' \<and>
         getitem y ''hallucination_score'' = getitem p ''confidence''"
  using assms by (auto simp: span_item_Inr_iff)

lemma run_token_detection_Inr:
  assumes "predict detector (contexts request) (question request) (answer request) ''tokens''
             = (Inr preds, d')"
  shows "fst (run_token_detection predict detector request) = Inr response \<longleftrightarrow>
         (\<exists>items. comprehension token_item preds = Inr items \<and>
                  response = PyDict [(''predictions'', PyList items)])"
  using assms
  by (cases "comprehension token_item preds")
     (auto simp: run_token_detection_def run_detector_safe_def)

lemma run_span_detection_Inr:
  assumes "predict detector (contexts request) (question request) (answer request) ''spans''
             = (Inr preds, d')"
  shows "fst (run_span_detection predict detector request) = Inr response \<longleftrightarrow>
         (\<exists>items. comprehension span_item preds = Inr items \<and>
                  response = PyDict [(''predictions'', PyList items)])"
  using assms
  by (cases "comprehension span_item preds")
     (auto simp: run_span_detection_def run_detector_safe_def)

text \<open>
  C2. In token mode, with the raw predictions \<open>preds\<close> that \<open>predict\<close> returned: when every
  raw item has a \<open>token\<close> and a \<open>prob\<close> the handler returns a response; and whatever response
  it returns is \<open>{"predictions": items}\<close> with one item per raw prediction, in the same
  order, item \<open>i\<close> holding the token of raw item \<open>i\<close> under \<open>token\<close> and its probability under
  \<open>hallucination_score\<close>. Nothing is dropped, added or reordered.
\<close>

theorem token_mode_field_for_field:
  assumes raw: "predict detector (contexts request) (question request) (answer request) ''tokens''
                  = (Inr preds, d')"
  shows "((\<forall>p\<in>set preds. \<exists>t s. getitem p ''token'' = Inr t \<and> getitem p ''prob'' = Inr s) \<longrightarrow>
            (\<exists>response. fst (run_token_detection predict detector request) = Inr response))
       \<and> (\<forall>response. fst (run_token_detection predict detector request) = Inr response \<longrightarrow>
            (\<exists>items. response = PyDict [(''predictions'', PyList items)] \<and>
               length items = length preds \<and>
               (\<forall>i<length preds.
                  getitem (items ! i) ''token'' = getitem (preds ! i) ''token'' \<and>
                  getitem (items ! i) ''hallucination_score'' = getitem (preds ! i) ''prob'')))"
proof (intro conjI impI allI)
  assume "\<forall>p\<in>set preds. \<exists>t s. getitem p ''token'' = Inr t \<and> getitem p ''prob'' = Inr s"
  then have "\<forall>p\<in>set preds. \<exists>y. token_item p = Inr y"
    unfolding token_item_Inr_iff by blast
  then obtain items where "comprehension token_item preds = Inr items"
    using comprehension_total by blast
  then show "\<exists>response. fst (run_token_detection predict detector request) = Inr response"
    unfolding run_token_detection_Inr [of predict detector request preds d', OF raw] by blast
next
  fix response
  assume "fst (run_token_detection predict detector request) = Inr response"
  then obtain items where conv: "comprehension token_item preds = Inr items"
    and resp: "response = PyDict [(''predictions'', PyList items)]"
    unfolding run_token_detection_Inr [of predict detector request preds d', OF raw] by blast
  have all2: "list_all2 (\<lambda>p y. token_item p = Inr y) preds items"
    by (rule comprehension_InrD [OF conv])
  then have len: "length items = length preds"
    by (simp add: list_all2_lengthD)
  have "getitem (items ! i) ''token'' = getitem (preds ! i) ''token'' \<and>
        getitem (items ! i) ''hallucination_score'' = getitem (preds ! i) ''prob''"
    if i: "i < length preds" for i
    by (rule token_item_fields [OF list_all2_nthD [OF all2 i]])
  with resp len show "\<exists>items. response = PyDict [(''predictions'', PyList items)] \<and>
               length items = length preds \<and>
               (\<forall>i<length preds.
                  getitem (items ! i) ''token'' = getitem (preds ! i) ''token'' \<and>
                  getitem (items ! i) ''hallucination_score'' = getitem (preds ! i) ''prob'')"
    by blast
qed

theorem token_mode_field_for_field_witness:
  "example_predict 0 (contexts example_request) (question example_request)
     (answer example_request) ''tokens'' = (Inr example_tokens, 1)
   \<and> fst (run_token_detection example_predict 0 example_request) =
       Inr (PyDict [(''predictions'', PyList
         [PyDict [(''token'', PyStr ''The''), (''hallucination_score'', PyFloat (Finite (1 / 100)))],
          PyDict [(''token'', PyStr ''Paris''), (''hallucination_score'', PyFloat (Finite (9 / 10)))]])])"
proof -
  have raw: "example_predict 0 (contexts example_request) (question example_request)
     (answer example_request) ''tokens'' = (Inr example_tokens, 1)"
    by (simp add: example_predict_def)
  have shape: "\<forall>p\<in>set example_tokens. \<exists>t s. getitem p ''token'' = Inr t \<and> getitem p ''prob'' = Inr s"
    by (simp add: example_tokens_def)
  from token_mode_field_for_field [of example_predict 0 example_request example_tokens 1, OF raw] shape
  obtain response items where
    ret: "fst (run_token_detection example_predict 0 example_request) = Inr response"
    and resp: "response = PyDict [(''predictions'', PyList items)]"
    and len: "length items = length example_tokens"
    and fields: "\<forall>i<length example_tokens.
        getitem (items ! i) ''token'' = getitem (example_tokens ! i) ''token'' \<and>
        getitem (items ! i) ''hallucination_score'' = getitem (example_tokens ! i) ''prob''"
    by blast
  have "fst (run_token_detection example_predict 0 example_request) =
       Inr (PyDict [(''predictions'', PyList
         [PyDict [(''token'', PyStr ''The''), (''hallucination_score'', PyFloat (Finite (1 / 100)))],
          PyDict [(''token'', PyStr ''Paris''), (''hallucination_score'', PyFloat (Finite (9 / 10)))]])])"
    by (simp add: run_token_detection_def run_detector_safe_def example_predict_def
        example_tokens_def token_item_def)
  with raw ret show ?thesis by simp
qed

text \<open>
  C3. In span mode, with the raw predictions \<open>preds\<close> that \<open>predict\<close> returned: when every
  raw span has a \<open>start\<close>, an \<open>end\<close>, a \<open>text\<close> and a \<open>confidence\<close> the handler returns a
  response; and whatever response it returns is \<open>{"predictions": items}\<close> with one item per
  raw span, in the order the model emitted them, item \<open>i\<close> holding the \<open>start\<close>, \<open>end\<close> and
  \<open>text\<close> of raw span \<open>i\<close> and its confidence under \<open>hallucination_score\<close>.
\<close>

theorem span_mode_field_for_field:
  assumes raw: "predict detector (contexts request) (question request) (answer request) ''spans''
                  = (Inr preds, d')"
  shows "((\<forall>p\<in>set preds. \<exists>s e t c. getitem p ''start'' = Inr s \<and> getitem p ''end'' = Inr e \<and>
              getitem p ''text'' = Inr t \<and> getitem p ''confidence'' = Inr c) \<longrightarrow>
            (\<exists>response. fst (run_span_detection predict detector request) = Inr response))
       \<and> (\<forall>response. fst (run_span_detection predict detector request) = Inr response \<longrightarrow>
            (\<exists>items. response = PyDict [(''predictions'', PyList items)] \<and>
               length items = length preds \<and>
               (\<forall>i<length preds.
                  getitem (items ! i) ''start'' = getitem (preds ! i) ''start'' \<and>
                  getitem (items ! i) ''end'' = getitem (preds ! i) ''end'' \<and>
                  getitem (items ! i) ''text'' = getitem (preds ! i) ''text'' \<and>
                  getitem (items ! i) ''hallucination_score'' =
                    getitem (preds ! i) ''confidence'')))"
proof (intro conjI impI allI)
  assume "\<forall>p\<in>set preds. \<exists>s e t c. getitem p ''start'' = Inr s \<and> getitem p ''end'' = Inr e \<and>
              getitem p ''text'' = Inr t \<and> getitem p ''confidence'' = Inr c"
  then have "\<forall>p\<in>set preds. \<exists>y. span_item p = Inr y"
    unfolding span_item_Inr_iff by blast
  then obtain items where "comprehension span_item preds = Inr items"
    using comprehension_total by blast
  then show "\<exists>response. fst (run_span_detection predict detector request) = Inr response"
    unfolding run_span_detection_Inr [of predict detector request preds d', OF raw] by blast
next
  fix response
  assume "fst (run_span_detection predict detector request) = Inr response"
  then obtain items where conv: "comprehension span_item preds = Inr items"
    and resp: "response = PyDict [(''predictions'', PyList items)]"
    unfolding run_span_detection_Inr [of predict detector request preds d', OF raw] by blast
  have all2: "list_all2 (\<lambda>p y. span_item p = Inr y) preds items"
    by (rule comprehension_InrD [OF conv])
  then have len: "length items = length preds"
    by (simp add: list_all2_lengthD)
  have "getitem (items ! i) ''start'' = getitem (preds ! i) ''start'' \<and>
        getitem (items ! i) ''end'' = getitem (preds ! i) ''end'' \<and>
        getitem (items ! i) ''text'' = getitem (preds ! i) ''text'' \<and>
        getitem (items ! i) ''hallucination_score'' = getitem (preds ! i) ''confidence''"
    if i: "i < length preds" for i
    by (rule span_item_fields [OF list_all2_nthD [OF all2 i]])
  with resp len show "\<exists>items. response = PyDict [(''predictions'', PyList items)] \<and>
               length items = length preds \<and>
               (\<forall>i<length preds.
                  getitem (items ! i) ''start'' = getitem (preds ! i) ''start'' \<and>
                  getitem (items ! i) ''end'' = getitem (preds ! i) ''end'' \<and>
                  getitem (items ! i) ''text'' = getitem (preds ! i) ''text'' \<and>
                  getitem (items ! i) ''hallucination_score'' =
                    getitem (preds ! i) ''confidence'')"
    by blast
qed

theorem span_mode_field_for_field_witness:
  "example_predict 0 (contexts example_request) (question example_request)
     (answer example_request) ''spans'' = (Inr example_spans, 1)
   \<and> fst (run_span_detection example_predict 0 example_request) =
       Inr (PyDict [(''predictions'', PyList
         [PyDict [(''start'', PyInt 25), (''end'', PyInt 30), (''text'', PyStr ''Paris''),
                  (''hallucination_score'', PyFloat (Finite (9 / 10)))]])])"
proof -
  have raw: "example_predict 0 (contexts example_request) (question example_request)
     (answer example_request) ''spans'' = (Inr example_spans, 1)"
    by (simp add: example_predict_def)
  have shape: "\<forall>p\<in>set example_spans. \<exists>s e t c. getitem p ''start'' = Inr s \<and>
      getitem p ''end'' = Inr e \<and> getitem p ''text'' = Inr t \<and> getitem p ''confidence'' = Inr c"
    by (simp add: example_spans_def)
  from span_mode_field_for_field [of example_predict 0 example_request example_spans 1, OF raw]
    shape
  obtain response where
    ret: "fst (run_span_detection example_predict 0 example_request) = Inr response"
    by blast
  have "fst (run_span_detection example_predict 0 example_request) =
       Inr (PyDict [(''predictions'', PyList
         [PyDict [(''start'', PyInt 25), (''end'', PyInt 30), (''text'', PyStr ''Paris''),
                  (''hallucination_score'', PyFloat (Finite (9 / 10)))]])])"
    by (simp add: run_span_detection_def run_detector_safe_def example_predict_def
        example_spans_def span_item_def)
  with raw ret show ?thesis by simp
qed

lemma as_int_Some: "as_int r = Some i \<longleftrightarrow> r = Inr (PyInt i)"
  by (cases r rule: as_int.cases) simp_all

lemma as_str_Some: "as_str r = Some t \<longleftrightarrow> r = Inr (PyStr t)"
  by (cases r rule: as_str.cases) simp_all

lemma as_float_Some: "as_float r = Some x \<longleftrightarrow> r = Inr (PyFloat x)"
  by (cases r rule: as_float.cases) simp_all

lemma raw_span_contractD:
  assumes "raw_span_contract ans p"
  shows "\<exists>s e c. getitem p ''start'' = Inr (PyInt s) \<and> getitem p ''end'' = Inr (PyInt e) \<and>
           getitem p ''text'' = Inr (PyStr (py_slice ans s e)) \<and>
           getitem p ''confidence'' = Inr (PyFloat c) \<and>
           0 \<le> s \<and> s \<le> e \<and> e \<le> int (length ans)"
proof -
  from assms obtain s e c where
    "as_int (getitem p ''start'') = Some s" "as_int (getitem p ''end'') = Some e"
    "as_str (getitem p ''text'') = Some (py_slice ans s e)"
    "as_float (getitem p ''confidence'') = Some c"
    "0 \<le> s" "s \<le> e" "e \<le> int (length ans)"
    unfolding raw_span_contract_def by (auto split: option.splits)
  then show ?thesis
    unfolding as_int_Some as_str_Some as_float_Some by blast
qed

lemma list_all2_right_member:
  assumes "list_all2 P xs ys" and "y \<in> set ys"
  shows "\<exists>x\<in>set xs. P x y"
proof -
  from assms(2) obtain i where i: "i < length ys" and y: "y = ys ! i"
    by (auto simp: in_set_conv_nth)
  from assms(1) have len: "length xs = length ys"
    by (rule list_all2_lengthD)
  with i assms(1) have "P (xs ! i) (ys ! i)"
    by (simp add: list_all2_nthD)
  with i len y show ?thesis by auto
qed

text \<open>
  C4. For a span-mode detection on a request with answer \<open>A\<close> whose raw spans meet the
  contract of the inference model, the handler returns a response, and every item of it
  has integers \<open>start\<close> and \<open>end\<close> with \<open>0 <= start <= end <= len(A)\<close> and \<open>text == A[start:end]\<close>.
\<close>

theorem span_items_within_answer:
  assumes raw: "predict detector (contexts request) (question request) (answer request) ''spans''
                  = (Inr preds, d')"
    and contract: "\<forall>p\<in>set preds. raw_span_contract (answer request) p"
  shows "\<exists>items. fst (run_span_detection predict detector request) =
                   Inr (PyDict [(''predictions'', PyList items)]) \<and>
          (\<forall>item\<in>set items. \<exists>s e.
             getitem item ''start'' = Inr (PyInt s) \<and> getitem item ''end'' = Inr (PyInt e) \<and>
             0 \<le> s \<and> s \<le> e \<and> e \<le> int (length (answer request)) \<and>
             getitem item ''text'' = Inr (PyStr (py_slice (answer request) s e)))"
proof -
  have "\<exists>y. span_item p = Inr y" if "p \<in> set preds" for p
  proof -
    from contract that have "raw_span_contract (answer request) p" by blast
    from raw_span_contractD [OF this] show ?thesis
      unfolding span_item_Inr_iff by blast
  qed
  then have "\<forall>p\<in>set preds. \<exists>y. span_item p = Inr y" by blast
  then obtain items where conv: "comprehension span_item preds = Inr items"
    using comprehension_total by blast
  then have ret: "fst (run_span_detection predict detector request) =
                   Inr (PyDict [(''predictions'', PyList items)])"
    unfolding run_span_detection_Inr [of predict detector request preds d', OF raw] by blast
  have all2: "list_all2 (\<lambda>p y. span_item p = Inr y) preds items"
    by (rule comprehension_InrD [OF conv])
  have "\<exists>s e. getitem item ''start'' = Inr (PyInt s) \<and> getitem item ''end'' = Inr (PyInt e) \<and>
             0 \<le> s \<and> s \<le> e \<and> e \<le> int (length (answer request)) \<and>
             getitem item ''text'' = Inr (PyStr (py_slice (answer request) s e))"
    if "item \<in> set items" for item
  proof -
    from list_all2_right_member [OF all2 that]
    obtain p where p: "p \<in> set preds" and item: "span_item p = Inr item"
      by blast
    from contract p have "raw_span_contract (answer request) p" by blast
    from raw_span_contractD [OF this] span_item_fields [OF item]
    show ?thesis by auto
  qed
  with ret show ?thesis by blast
qed

theorem span_items_within_answer_witness:
  "example_predict 0 (contexts example_request) (question example_request)
     (answer example_request) ''spans'' = (Inr example_spans, 1)
   \<and> list_all (raw_span_contract (answer example_request)) example_spans
   \<and> (\<exists>items. fst (run_span_detection example_predict 0 example_request) =
                   Inr (PyDict [(''predictions'', PyList items)]) \<and>
          list_all (\<lambda>item. \<exists>s e.
             getitem item ''start'' = Inr (PyInt s) \<and> getitem item ''end'' = Inr (PyInt e) \<and>
             0 \<le> s \<and> s \<le> e \<and> e \<le> int (length (answer example_request)) \<and>
             getitem item ''text'' = Inr (PyStr (py_slice (answer example_request) s e))) items)"
proof -
  have raw: "example_predict 0 (contexts example_request) (question example_request)
     (answer example_request) ''spans'' = (Inr example_spans, 1)"
    by (simp add: example_predict_def)
  have contract: "\<forall>p\<in>set example_spans. raw_span_contract (answer example_request) p"
    by (simp add: example_spans_def raw_span_contract_def example_request_def py_slice_def)
  from span_items_within_answer [of example_predict 0 example_request example_spans 1,
      OF raw contract] raw contract
  show ?thesis by (simp add: list_all_iff)
qed

section \<open>Properties of the gate\<close>

lemma startup_invariant: "gate_invariant startup"
  by (simp add: gate_invariant_def startup_def)

lemma fire_Call_invariant:
  assumes inv: "gate_invariant s" and fire: "fire (Call t) s = Some s'"
  shows "gate_invariant s'"
proof -
  from fire have idle: "pcs s t = Idle"
    by (simp split: if_splits)
  show ?thesis
  proof (cases "\<not> locked (detector_lock s) \<and> waiters (detector_lock s) = []")
    case True
    with fire idle have s': "s' = s\<lparr>detector_lock := (detector_lock s)\<lparr>locked := True\<rparr>,
                                  pcs := (pcs s)(t := InPredict)\<rparr>"
      by simp
    from inv True have none: "\<And>u. pcs s u \<noteq> InPredict"
      unfolding gate_invariant_def by blast
    from inv True have nosusp: "\<And>u. pcs s u \<noteq> Suspended"
      unfolding gate_invariant_def by auto
    show ?thesis
      unfolding gate_invariant_def s' using True none nosusp by auto
  next
    case False
    with fire idle have s': "s' = s\<lparr>detector_lock :=
                     (detector_lock s)\<lparr>waiters := waiters (detector_lock s) @ [(t, False)]\<rparr>,
                  pcs := (pcs s)(t := Suspended)\<rparr>"
      by (simp split: if_splits)
    from inv idle have notin: "t \<notin> fst ` set (waiters (detector_lock s))"
      unfolding gate_invariant_def by auto
    have lk: "locked (detector_lock s') = locked (detector_lock s)"
      unfolding s' by simp
    have ws: "waiters (detector_lock s') = waiters (detector_lock s) @ [(t, False)]"
      unfolding s' by simp
    have pc: "pcs s' = (pcs s)(t := Suspended)"
      unfolding s' by simp
    have inp: "pcs s' u = InPredict \<longleftrightarrow> pcs s u = InPredict" for u
      using idle unfolding pc by auto
    have 1: "locked (detector_lock s') \<longleftrightarrow> (\<exists>u. pcs s' u = InPredict)"
      using inv unfolding lk inp gate_invariant_def by blast
    have 2: "\<forall>u v. pcs s' u = InPredict \<longrightarrow> pcs s' v = InPredict \<longrightarrow> u = v"
      using inv unfolding inp gate_invariant_def by blast
    have 3: "distinct (map fst (waiters (detector_lock s')))"
      using inv notin unfolding ws gate_invariant_def by auto
    have 4: "fst ` set (waiters (detector_lock s')) = {u. pcs s' u = Suspended}"
      using inv unfolding ws pc gate_invariant_def by auto
    have 5: "\<forall>w \<in> set (tl (waiters (detector_lock s'))). \<not> snd w"
      using inv unfolding ws gate_invariant_def
      by (cases "waiters (detector_lock s)") auto
    have 6: "waiters (detector_lock s') \<noteq> [] \<longrightarrow>
           snd (hd (waiters (detector_lock s'))) = (\<not> locked (detector_lock s'))"
      using inv False unfolding ws lk gate_invariant_def
      by (cases "waiters (detector_lock s)") auto
    from 1 2 3 4 5 6 show ?thesis
      unfolding gate_invariant_def by blast
  qed
qed

lemma fire_Wake_invariant:
  assumes inv: "gate_invariant s" and fire: "fire (Wake t) s = Some s'"
  shows "gate_invariant s'"
proof -
  let ?l = "detector_lock s"
  from fire have susp: "pcs s t = Suspended" and mem: "(t, True) \<in> set (waiters ?l)"
    by (simp_all split: if_splits)
  from inv have tail: "\<forall>w \<in> set (tl (waiters ?l)). \<not> snd w"
    and head: "waiters ?l \<noteq> [] \<longrightarrow> snd (hd (waiters ?l)) = (\<not> locked ?l)"
    and dist: "distinct (map fst (waiters ?l))"
    and queue: "fst ` set (waiters ?l) = {u. pcs s u = Suspended}"
    and held: "locked ?l \<longleftrightarrow> (\<exists>u. pcs s u = InPredict)"
    unfolding gate_invariant_def by blast+
  from mem obtain ws where ws: "waiters ?l = (t, True) # ws"
  proof (cases "waiters ?l")
    case Nil
    with mem show ?thesis by simp
  next
    case (Cons w ws)
    with mem tail have "w = (t, True)" by auto
    with Cons that show ?thesis by simp
  qed
  with head have free: "\<not> locked ?l" by simp
  with held have none: "\<And>u. pcs s u \<noteq> InPredict" by blast
  from fire susp mem ws have s': "s' = s\<lparr>detector_lock := ?l\<lparr>waiters := ws, locked := True\<rparr>,
                  pcs := (pcs s)(t := InPredict)\<rparr>"
    by simp
  have lk: "locked (detector_lock s')" unfolding s' by simp
  have wq: "waiters (detector_lock s') = ws" unfolding s' by simp
  have pc: "pcs s' = (pcs s)(t := InPredict)" unfolding s' by simp
  from dist ws have t_out: "t \<notin> fst ` set ws" and dist': "distinct (map fst ws)"
    by auto
  have 1: "locked (detector_lock s') \<longleftrightarrow> (\<exists>u. pcs s' u = InPredict)"
    unfolding pc using lk by auto
  have 2: "\<forall>u v. pcs s' u = InPredict \<longrightarrow> pcs s' v = InPredict \<longrightarrow> u = v"
    unfolding pc using none by (auto split: if_splits)
  have 3: "distinct (map fst (waiters (detector_lock s')))"
    unfolding wq by (rule dist')
  have 4: "fst ` set (waiters (detector_lock s')) = {u. pcs s' u = Suspended}"
  proof -
    from queue ws have "insert t (fst ` set ws) = {u. pcs s u = Suspended}" by simp
    with t_out show ?thesis unfolding wq pc by auto
  qed
  have 5: "\<forall>w \<in> set (tl (waiters (detector_lock s'))). \<not> snd w"
    unfolding wq using tail ws by (cases ws) auto
  have 6: "waiters (detector_lock s') \<noteq> [] \<longrightarrow>
           snd (hd (waiters (detector_lock s'))) = (\<not> locked (detector_lock s'))"
    unfolding wq using tail ws lk by (cases ws) auto
  from 1 2 3 4 5 6 show ?thesis
    unfolding gate_invariant_def by blast
qed

lemma leave_async_with_invariant:
  assumes inv: "gate_invariant s" and inp: "pcs s t = InPredict"
    and outcome: "outcome = Returned \<or> outcome = Failed"
  shows "gate_invariant (leave_async_with t outcome s)"
proof -
  let ?l = "detector_lock s"
  let ?s' = "leave_async_with t outcome s"
  from inv have tail: "\<forall>w \<in> set (tl (waiters ?l)). \<not> snd w"
    and dist: "distinct (map fst (waiters ?l))"
    and queue: "fst ` set (waiters ?l) = {u. pcs s u = Suspended}"
    and held: "locked ?l \<longleftrightarrow> (\<exists>u. pcs s u = InPredict)"
    and one: "\<forall>u v. pcs s u = InPredict \<longrightarrow> pcs s v = InPredict \<longrightarrow> u = v"
    unfolding gate_invariant_def by blast+
  from held inp have locked: "locked ?l" by blast
  then have s': "?s' = s\<lparr>detector_lock := wake_up_first (?l\<lparr>locked := False\<rparr>),
                         pcs := (pcs s)(t := outcome)\<rparr>"
    by (simp add: leave_async_with_def release_def)
  have lk: "\<not> locked (detector_lock ?s')"
    unfolding s' by (simp add: wake_up_first_def split: list.splits)
  have wq: "waiters (detector_lock ?s') =
      (case waiters ?l of [] \<Rightarrow> [] | (u, d) # ws \<Rightarrow> (u, True) # ws)"
    unfolding s' by (simp add: wake_up_first_def split: list.splits)
  have pc: "pcs ?s' = (pcs s)(t := outcome)" unfolding s' by simp
  have fsts: "map fst (waiters (detector_lock ?s')) = map fst (waiters ?l)"
    unfolding wq by (simp split: list.splits)
  then have fset: "fst ` set (waiters (detector_lock ?s')) = fst ` set (waiters ?l)"
    by (metis set_map)
  have 1: "locked (detector_lock ?s') \<longleftrightarrow> (\<exists>u. pcs ?s' u = InPredict)"
    using lk one inp outcome unfolding pc by auto
  have 2: "\<forall>u v. pcs ?s' u = InPredict \<longrightarrow> pcs ?s' v = InPredict \<longrightarrow> u = v"
    using one outcome unfolding pc by (auto split: if_splits)
  have 3: "distinct (map fst (waiters (detector_lock ?s')))"
    unfolding fsts by (rule dist)
  have 4: "fst ` set (waiters (detector_lock ?s')) = {u. pcs ?s' u = Suspended}"
    unfolding fset queue pc using inp outcome by auto
  have 5: "\<forall>w \<in> set (tl (waiters (detector_lock ?s'))). \<not> snd w"
    unfolding wq using tail by (simp split: list.splits)
  have 6: "waiters (detector_lock ?s') \<noteq> [] \<longrightarrow>
           snd (hd (waiters (detector_lock ?s'))) = (\<not> locked (detector_lock ?s'))"
    using lk unfolding wq by (simp split: list.splits)
  from 1 2 3 4 5 6 show ?thesis
    unfolding gate_invariant_def by blast
qed

lemma fire_invariant:
  assumes "gate_invariant s" and "fire e s = Some s'"
  shows "gate_invariant s'"
proof (cases e)
  case (Call t)
  with assms show ?thesis using fire_Call_invariant by blast
next
  case (Wake t)
  with assms show ?thesis using fire_Wake_invariant by blast
next
  case (PredictReturns t)
  with assms show ?thesis
    using leave_async_with_invariant [of s t Returned] by (auto split: if_splits)
next
  case (PredictRaises t)
  with assms show ?thesis
    using leave_async_with_invariant [of s t Failed] by (auto split: if_splits)
qed

lemma run_invariant:
  assumes "gate_invariant s" and "run es s = Some s'"
  shows "gate_invariant s'"
  using assms
proof (induction es arbitrary: s)
  case Nil
  then show ?case by simp
next
  case (Cons e es)
  from Cons.prems(2) obtain s1 where 1: "fire e s = Some s1" and 2: "run es s1 = Some s'"
    by (cases "fire e s") simp_all
  from fire_invariant [OF Cons.prems(1) 1] 2 show ?case by (rule Cons.IH)
qed

lemma suspended_in_queue:
  assumes "gate_invariant s" and "pcs s t = Suspended"
  shows "t \<in> fst ` set (waiters (detector_lock s))"
  using assms unfolding gate_invariant_def by blast

lemma call_keeps_waiting:
  assumes inv: "gate_invariant s" and susp: "pcs s t = Suspended"
    and fire: "fire (Call u) s = Some s'"
  shows "pcs s' t = Suspended \<and> wait_rank s' t = wait_rank s t"
proof -
  let ?l = "detector_lock s"
  from fire have idle: "pcs s u = Idle" by (simp split: if_splits)
  with susp have ne: "u \<noteq> t" by auto
  from suspended_in_queue [OF inv susp] have mem: "t \<in> fst ` set (waiters ?l)" .
  then have nonempty: "waiters ?l \<noteq> []" by auto
  with fire idle have s': "s' = s\<lparr>detector_lock := ?l\<lparr>waiters := waiters ?l @ [(u, False)]\<rparr>,
                  pcs := (pcs s)(u := Suspended)\<rparr>"
    by (simp split: if_splits)
  from mem obtain w where w: "w \<in> set (waiters ?l)" "\<not> fst w \<noteq> t" by auto
  have "takeWhile (\<lambda>w. fst w \<noteq> t) (waiters ?l @ [(u, False)])
          = takeWhile (\<lambda>w. fst w \<noteq> t) (waiters ?l)"
    using w by (simp add: takeWhile_append1 [where P = "\<lambda>w. fst w \<noteq> t"])
  then show ?thesis
    unfolding s' wait_rank_def using susp ne by simp
qed

lemma wake_advances:
  assumes inv: "gate_invariant s" and susp: "pcs s t = Suspended"
    and fire: "fire (Wake u) s = Some s'"
  shows "(wait_rank s t = 1 \<and> pcs s' t = InPredict) \<or>
         (pcs s' t = Suspended \<and> Suc (wait_rank s' t) = wait_rank s t)"
proof -
  let ?l = "detector_lock s"
  from fire have mem: "(u, True) \<in> set (waiters ?l)" and us: "pcs s u = Suspended"
    by (simp_all split: if_splits)
  from inv have tail: "\<forall>w \<in> set (tl (waiters ?l)). \<not> snd w"
    and head: "waiters ?l \<noteq> [] \<longrightarrow> snd (hd (waiters ?l)) = (\<not> locked ?l)"
    unfolding gate_invariant_def by blast+
  from mem obtain ws where ws: "waiters ?l = (u, True) # ws"
  proof (cases "waiters ?l")
    case Nil
    with mem show ?thesis by simp
  next
    case (Cons w ws)
    with mem tail have "w = (u, True)" by auto
    with Cons that show ?thesis by simp
  qed
  with head have free: "\<not> locked ?l" by simp
  from fire us mem ws have s': "s' = s\<lparr>detector_lock := ?l\<lparr>waiters := ws, locked := True\<rparr>,
                  pcs := (pcs s)(u := InPredict)\<rparr>"
    by simp
  show ?thesis
  proof (cases "u = t")
    case True
    then show ?thesis unfolding s' wait_rank_def using ws free by simp
  next
    case False
    then show ?thesis unfolding s' wait_rank_def using ws free susp by simp
  qed
qed

lemma leave_advances:
  assumes inv: "gate_invariant s" and susp: "pcs s t = Suspended"
    and inp: "pcs s u = InPredict"
  shows "pcs (leave_async_with u outcome s) t = Suspended \<and>
         Suc (wait_rank (leave_async_with u outcome s) t) = wait_rank s t"
proof -
  let ?l = "detector_lock s"
  let ?s' = "leave_async_with u outcome s"
  from inv inp have locked: "locked ?l"
    unfolding gate_invariant_def by blast
  then have s': "?s' = s\<lparr>detector_lock := wake_up_first (?l\<lparr>locked := False\<rparr>),
                         pcs := (pcs s)(u := outcome)\<rparr>"
    by (simp add: leave_async_with_def release_def)
  from susp inp have ne: "u \<noteq> t" by auto
  have lk: "\<not> locked (detector_lock ?s')"
    unfolding s' by (simp add: wake_up_first_def split: list.splits)
  have wq: "waiters (detector_lock ?s') =
      (case waiters ?l of [] \<Rightarrow> [] | (v, d) # ws \<Rightarrow> (v, True) # ws)"
    unfolding s' by (simp add: wake_up_first_def split: list.splits)
  have "length (takeWhile (\<lambda>w. fst w \<noteq> t) (waiters (detector_lock ?s')))
          = length (takeWhile (\<lambda>w. fst w \<noteq> t) (waiters ?l))"
    unfolding wq by (simp split: list.splits)
  with lk locked have "Suc (wait_rank ?s' t) = wait_rank s t"
    unfolding wait_rank_def by simp
  moreover have "pcs ?s' t = Suspended"
    unfolding s' using susp ne by simp
  ultimately show ?thesis by blast
qed

lemma event_advances:
  assumes inv: "gate_invariant s" and susp: "pcs s t = Suspended"
    and fire: "fire e s = Some s'" and sys: "\<not> is_call e"
  shows "(wait_rank s t = 1 \<and> pcs s' t = InPredict) \<or>
         (pcs s' t = Suspended \<and> Suc (wait_rank s' t) = wait_rank s t)"
proof (cases e)
  case (Call u)
  with sys show ?thesis by simp
next
  case (Wake u)
  with fire wake_advances [OF inv susp] show ?thesis by blast
next
  case (PredictReturns u)
  with fire have "pcs s u = InPredict" "s' = leave_async_with u Returned s"
    by (simp_all split: if_splits)
  with leave_advances [OF inv susp] show ?thesis by blast
next
  case (PredictRaises u)
  with fire have "pcs s u = InPredict" "s' = leave_async_with u Failed s"
    by (simp_all split: if_splits)
  with leave_advances [OF inv susp] show ?thesis by blast
qed

lemma served_stable:
  assumes "pcs s t \<in> {InPredict, Returned, Failed}" and "fire e s = Some s'"
  shows "pcs s' t \<in> {InPredict, Returned, Failed}"
  using assms
  by (cases e)
     (auto simp: leave_async_with_def release_def wake_up_first_def
           split: if_splits sum.splits list.splits)

lemma served_stable_run:
  assumes "pcs s t \<in> {InPredict, Returned, Failed}" and "run es s = Some s'"
  shows "pcs s' t \<in> {InPredict, Returned, Failed}"
  using assms
proof (induction es arbitrary: s)
  case Nil
  then show ?case by simp
next
  case (Cons e es)
  from Cons.prems(2) obtain s1 where 1: "fire e s = Some s1" and 2: "run es s1 = Some s'"
    by (cases "fire e s") simp_all
  from served_stable [OF Cons.prems(1) 1] 2 show ?case by (rule Cons.IH)
qed

lemma wait_rank_positive: "0 < wait_rank s t"
  by (simp add: wait_rank_def)

lemma served_after:
  assumes "gate_invariant s" and "pcs s t = Suspended" and "run es s = Some s'"
  shows "(pcs s' t = Suspended \<and>
            wait_rank s' t + length (filter (\<lambda>e. \<not> is_call e) es) = wait_rank s t)
       \<or> pcs s' t \<in> {InPredict, Returned, Failed}"
  using assms
proof (induction es arbitrary: s)
  case Nil
  then show ?case by simp
next
  case (Cons e es)
  from Cons.prems(3) obtain s1 where 1: "fire e s = Some s1" and 2: "run es s1 = Some s'"
    by (cases "fire e s") simp_all
  have inv1: "gate_invariant s1"
    by (rule fire_invariant [OF Cons.prems(1) 1])
  show ?case
  proof (cases "is_call e")
    case True
    then obtain u where e: "e = Call u" by (cases e) simp_all
    from call_keeps_waiting [OF Cons.prems(1,2) 1 [unfolded e]]
    have "pcs s1 t = Suspended" "wait_rank s1 t = wait_rank s t" by simp_all
    with Cons.IH [OF inv1 _ 2] True show ?thesis by auto
  next
    case False
    from event_advances [OF Cons.prems(1,2) 1 False]
    show ?thesis
    proof
      assume "wait_rank s t = 1 \<and> pcs s1 t = InPredict"
      then have "pcs s1 t \<in> {InPredict, Returned, Failed}" by simp
      from served_stable_run [OF this 2] show ?thesis by blast
    next
      assume a: "pcs s1 t = Suspended \<and> Suc (wait_rank s1 t) = wait_rank s t"
      with Cons.IH [OF inv1 _ 2] False show ?thesis by auto
    qed
  qed
qed

lemma progress_possible:
  assumes inv: "gate_invariant s" and susp: "pcs s t = Suspended"
  shows "\<exists>e s'. \<not> is_call e \<and> fire e s = Some s'"
proof -
  let ?l = "detector_lock s"
  from suspended_in_queue [OF inv susp] obtain w ws where ws: "waiters ?l = w # ws"
    by (cases "waiters ?l") auto
  show ?thesis
  proof (cases "locked ?l")
    case True
    with inv obtain u where "pcs s u = InPredict"
      unfolding gate_invariant_def by blast
    then have "fire (PredictReturns u) s = Some (leave_async_with u Returned s)" by simp
    moreover have "\<not> is_call (PredictReturns u)" by simp
    ultimately show ?thesis by blast
  next
    case False
    with inv ws have flag: "snd w" unfolding gate_invariant_def by auto
    from inv ws have "fst w \<in> {u. pcs s u = Suspended}"
      unfolding gate_invariant_def by (metis image_eqI list.set_intros(1))
    then have "pcs s (fst w) = Suspended" by simp
    moreover from flag ws have "(fst w, True) \<in> set (waiters ?l)"
      by (cases w) auto
    ultimately have "fire (Wake (fst w)) s \<noteq> None" by simp
    moreover have "\<not> is_call (Wake (fst w))" by simp
    ultimately show ?thesis by blast
  qed
qed

lemma busy_no_wake:
  assumes inv: "gate_invariant s" and inp: "pcs s u = InPredict"
  shows "fire (Wake t) s = None"
proof -
  let ?l = "detector_lock s"
  from inv inp have locked: "locked ?l" unfolding gate_invariant_def by blast
  have "\<not> snd w" if "w \<in> set (waiters ?l)" for w
  proof (cases "waiters ?l")
    case Nil
    with that show ?thesis by simp
  next
    case (Cons x xs)
    with inv locked have "\<not> snd x" "\<forall>w\<in>set xs. \<not> snd w"
      unfolding gate_invariant_def by auto
    with that Cons show ?thesis by auto
  qed
  then have "(t, True) \<notin> set (waiters ?l)" by force
  then show ?thesis by simp
qed

lemma busy_call_suspends:
  assumes inv: "gate_invariant s" and inp: "pcs s u = InPredict" and idle: "pcs s t = Idle"
  shows "\<exists>s'. fire (Call t) s = Some s' \<and> pcs s' t = Suspended \<and> pcs s' u = InPredict"
proof -
  from inv inp have locked: "locked (detector_lock s)" unfolding gate_invariant_def by blast
  from inp idle have "u \<noteq> t" by auto
  with locked idle inp show ?thesis by simp
qed

text \<open>
  C1. In every state the event loop can reach from startup, whatever requests were made
  and in whatever order things happened: at most one request is in \<open>detector.predict\<close>; a
  request that calls \<open>run_detector_safe\<close> while another is in \<open>predict\<close> is suspended, it
  neither fails nor enters \<open>predict\<close>, and it cannot be woken as long as the other is
  there; and a suspended request is served: some wake-up or end of a \<open>predict\<close> can always
  happen, and once as many of them have happened as its place in the queue asks for, with
  any new calls in between, it is in \<open>predict\<close> or has left it.
\<close>

theorem gate_serializes_predict:
  assumes reach: "run events startup = Some s"
  shows "(\<forall>t u. pcs s t = InPredict \<and> pcs s u = InPredict \<longrightarrow> t = u)
       \<and> (\<forall>t u. pcs s t = Idle \<and> pcs s u = InPredict \<longrightarrow>
            (\<exists>s'. fire (Call t) s = Some s' \<and> pcs s' t = Suspended \<and> pcs s' u = InPredict))
       \<and> (\<forall>t u. pcs s t = Suspended \<and> pcs s u = InPredict \<longrightarrow> fire (Wake t) s = None)
       \<and> (\<forall>t. pcs s t = Suspended \<longrightarrow> (\<exists>e s'. \<not> is_call e \<and> fire e s = Some s'))
       \<and> (\<forall>t es s'. pcs s t = Suspended \<and> run es s = Some s' \<and>
            wait_rank s t \<le> length (filter (\<lambda>e. \<not> is_call e) es) \<longrightarrow>
            pcs s' t \<in> {InPredict, Returned, Failed})"
proof -
  have inv: "gate_invariant s"
    by (rule run_invariant [OF startup_invariant reach])
  have 1: "\<forall>t u. pcs s t = InPredict \<and> pcs s u = InPredict \<longrightarrow> t = u"
    using inv unfolding gate_invariant_def by blast
  have 2: "\<forall>t u. pcs s t = Idle \<and> pcs s u = InPredict \<longrightarrow>
            (\<exists>s'. fire (Call t) s = Some s' \<and> pcs s' t = Suspended \<and> pcs s' u = InPredict)"
    using busy_call_suspends [OF inv] by blast
  have 3: "\<forall>t u. pcs s t = Suspended \<and> pcs s u = InPredict \<longrightarrow> fire (Wake t) s = None"
    using busy_no_wake [OF inv] by blast
  have 4: "\<forall>t. pcs s t = Suspended \<longrightarrow> (\<exists>e s'. \<not> is_call e \<and> fire e s = Some s')"
    using progress_possible [OF inv] by blast
  have 5: "pcs s' t \<in> {InPredict, Returned, Failed}"
    if "pcs s t = Suspended \<and> run es s = Some s' \<and>
        wait_rank s t \<le> length (filter (\<lambda>e. \<not> is_call e) es)" for t es s'
  proof -
    from that have susp: "pcs s t = Suspended" and r: "run es s = Some s'"
      and enough: "wait_rank s t \<le> length (filter (\<lambda>e. \<not> is_call e) es)" by simp_all
    from served_after [OF inv susp r] show ?thesis
    proof
      assume "pcs s' t = Suspended \<and>
            wait_rank s' t + length (filter (\<lambda>e. \<not> is_call e) es) = wait_rank s t"
      with enough wait_rank_positive [of s' t] show ?thesis by linarith
    qed
  qed
  from 1 2 3 4 5 show ?thesis by blast
qed

theorem gate_serializes_predict_witness:
  "run [Call 0, Call 1] startup = Some busy_state
   \<and> pcs busy_state 0 = InPredict \<and> pcs busy_state 1 = Suspended \<and> pcs busy_state 2 = Idle
   \<and> (\<exists>s'. fire (Call 2) busy_state = Some s' \<and> pcs s' 2 = Suspended \<and> pcs s' 0 = InPredict)
   \<and> fire (Wake 1) busy_state = None
   \<and> wait_rank busy_state 1 = 2
   \<and> (\<exists>s'. run [PredictReturns 0, Call 2, Wake 1] busy_state = Some s' \<and>
           pcs s' 0 = Returned \<and> pcs s' 1 = InPredict \<and> pcs s' 2 = Suspended)"
proof -
  have reach: "run [Call 0, Call 1] startup = Some busy_state"
    by (simp add: startup_def busy_state_def)
  have pcs: "pcs busy_state 0 = InPredict" "pcs busy_state 1 = Suspended"
    "pcs busy_state 2 = Idle"
    by (simp_all add: busy_state_def)
  have rank: "wait_rank busy_state 1 = 2"
    by (simp add: wait_rank_def busy_state_def)
  obtain s2 where later: "run [PredictReturns 0, Call 2, Wake 1] busy_state = Some s2"
    and others: "pcs s2 0 = Returned" "pcs s2 1 = InPredict" "pcs s2 2 = Suspended"
    by (simp add: busy_state_def leave_async_with_def release_def wake_up_first_def)
  note T = gate_serializes_predict [OF reach]
  from T pcs have suspends:
    "\<exists>s'. fire (Call 2) busy_state = Some s' \<and> pcs s' 2 = Suspended \<and> pcs s' 0 = InPredict"
    by blast
  from T pcs have no_wake: "fire (Wake 1) busy_state = None"
    by blast
  have "wait_rank busy_state 1
          \<le> length (filter (\<lambda>e. \<not> is_call e) [PredictReturns 0, Call 2, Wake 1])"
    using rank by simp
  with T pcs later have served: "pcs s2 1 \<in> {InPredict, Returned, Failed}"
    by blast
  from reach pcs suspends no_wake rank later others served show ?thesis by blast
qed

section \<open>Properties of the transport binding\<close>

lemma match_route_token: "match_route ''POST'' ''/lettucedetect/token'' = Matched (Detection RunTokenDetection)"
  by (simp add: match_route_def routes_def)

lemma match_route_spans: "match_route ''POST'' ''/lettucedetect/spans'' = Matched (Detection RunSpanDetection)"
  by (simp add: match_route_def routes_def)

text \<open>
  C5, as the code has it. When \<open>predict\<close> raises \<open>e\<close> during a detection call, in either
  mode, the exception leaves \<open>run_detector_safe\<close> and the handler as the same \<open>e\<close>: nothing
  wraps it. The detector is left as that single call left it (no second call), the handler
  returns no predictions, and the exchange is answered with status 500.
\<close>

theorem inference_failure_propagates:
  assumes body: "parse_body body = Some request"
  shows "(predict detector (contexts request) (question request) (answer request) ''tokens''
            = (Inl e, d') \<longrightarrow>
          run_detector_safe predict detector request ''tokens'' = (Inl e, d') \<and>
          run_token_detection predict detector request = (Inl e, d') \<and>
          app predict parse_body serialize_response detector ''POST'' ''/lettucedetect/token'' body
            = (\<lparr>status_code = 500, content = PlainText ''Internal Server Error''\<rparr>, d'))
       \<and> (predict detector (contexts request) (question request) (answer request) ''spans''
            = (Inl e, d') \<longrightarrow>
          run_detector_safe predict detector request ''spans'' = (Inl e, d') \<and>
          run_span_detection predict detector request = (Inl e, d') \<and>
          app predict parse_body serialize_response detector ''POST'' ''/lettucedetect/spans'' body
            = (\<lparr>status_code = 500, content = PlainText ''Internal Server Error''\<rparr>, d'))"
proof (intro conjI impI)
  assume raised: "predict detector (contexts request) (question request) (answer request)
                    ''tokens'' = (Inl e, d')"
  then show safe: "run_detector_safe predict detector request ''tokens'' = (Inl e, d')"
    by (simp add: run_detector_safe_def)
  then show handler: "run_token_detection predict detector request = (Inl e, d')"
    by (simp add: run_token_detection_def)
  then show "app predict parse_body serialize_response detector ''POST'' ''/lettucedetect/token''
               body = (\<lparr>status_code = 500, content = PlainText ''Internal Server Error''\<rparr>, d')"
    by (simp add: app_def match_route_token body call_handler_def)
next
  assume raised: "predict detector (contexts request) (question request) (answer request)
                    ''spans'' = (Inl e, d')"
  then show safe: "run_detector_safe predict detector request ''spans'' = (Inl e, d')"
    by (simp add: run_detector_safe_def)
  then show handler: "run_span_detection predict detector request = (Inl e, d')"
    by (simp add: run_span_detection_def)
  then show "app predict parse_body serialize_response detector ''POST'' ''/lettucedetect/spans''
               body = (\<lparr>status_code = 500, content = PlainText ''Internal Server Error''\<rparr>, d')"
    by (simp add: app_def match_route_spans body call_handler_def)
qed

theorem inference_failure_propagates_witness:
  "failing_predict 0 (contexts example_request) (question example_request)
     (answer example_request) ''tokens''
     = (Inl (Raised [''RuntimeError'', ''Exception''] ''CUDA out of memory''), 1)
   \<and> run_token_detection failing_predict 0 example_request
     = (Inl (Raised [''RuntimeError'', ''Exception''] ''CUDA out of memory''), 1)
   \<and> app failing_predict (\<lambda>b. Some example_request) (\<lambda>ep v. Some v) 0
        ''POST'' ''/lettucedetect/token'' []
     = (\<lparr>status_code = 500, content = PlainText ''Internal Server Error''\<rparr>, 1)
   \<and> failing_predict 0 (contexts example_request) (question example_request)
     (answer example_request) ''spans''
     = (Inl (Raised [''RuntimeError'', ''Exception''] ''CUDA out of memory''), 1)
   \<and> run_span_detection failing_predict 0 example_request
     = (Inl (Raised [''RuntimeError'', ''Exception''] ''CUDA out of memory''), 1)
   \<and> app failing_predict (\<lambda>b. Some example_request) (\<lambda>ep v. Some v) 0
        ''POST'' ''/lettucedetect/spans'' []
     = (\<lparr>status_code = 500, content = PlainText ''Internal Server Error''\<rparr>, 1)"
proof -
  have body: "(\<lambda>b. Some example_request) [] = Some example_request"
    by simp
  have tokens: "failing_predict 0 (contexts example_request) (question example_request)
     (answer example_request) ''tokens''
     = (Inl (Raised [''RuntimeError'', ''Exception''] ''CUDA out of memory''), 1)"
    by (simp add: failing_predict_def)
  have spans: "failing_predict 0 (contexts example_request) (question example_request)
     (answer example_request) ''spans''
     = (Inl (Raised [''RuntimeError'', ''Exception''] ''CUDA out of memory''), 1)"
    by (simp add: failing_predict_def)
  from inference_failure_propagates [of "\<lambda>b. Some example_request" "[]" example_request
      failing_predict 0 "Raised [''RuntimeError'', ''Exception''] ''CUDA out of memory''" 1
      "\<lambda>ep v. Some v", OF body] tokens spans
  show ?thesis by blast
qed

text \<open>
  C5 as the spec states it fails: the detector raises a \<open>RuntimeError\<close>, and what leaves
  \<open>run_detector_safe\<close> is that \<open>RuntimeError\<close>, which is no \<open>InferenceError\<close>.
\<close>

theorem inference_error_counterexample:
  "fst (run_detector_safe failing_predict 0 example_request ''tokens'')
     = Inl (Raised [''RuntimeError'', ''Exception''] ''CUDA out of memory'')
   \<and> \<not> isinstance (Raised [''RuntimeError'', ''Exception''] ''CUDA out of memory'')
         ''InferenceError''"
  by (simp add: run_detector_safe_def failing_predict_def isinstance_def)

section \<open>Properties of the client binding\<close>

lemma wrapper_outcome:
  assumes "net n \<lparr>req_method = m, req_url = u, req_json = dict_of_request request\<rparr> = (Inr r, n')"
  shows "httpx_request_wrapper net m u request response_model n =
           (if 200 \<le> resp_status_code r \<and> resp_status_code r \<le> 299
            then (case response_model (resp_text r) of
                    None \<Rightarrow> Inl ValidationError | Some v \<Rightarrow> Inr v)
            else Inl (HTTPStatusError (resp_status_code r) (resp_text r)), n')"
  using assms
  by (simp add: httpx_request_wrapper_def raise_for_status_def model_validate_json_def)

lemma wrapper_async_outcome:
  assumes "net n \<lparr>req_method = m, req_url = u, req_json = dict_of_request request\<rparr> = (Inr r, n')"
  shows "httpx_request_wrapper_async net m u request response_model n =
           (if 200 \<le> resp_status_code r \<and> resp_status_code r \<le> 299
            then (case response_model (resp_text r) of
                    None \<Rightarrow> Inl ValidationError | Some v \<Rightarrow> Inr v)
            else Inl (HTTPStatusError (resp_status_code r) (resp_text r)), n')"
  using assms
  by (simp add: httpx_request_wrapper_async_def raise_for_status_def model_validate_json_def)

lemma HTTPStatusError_is_HTTPError: "isinstance (HTTPStatusError st b) ''HTTPError''"
  by (simp add: isinstance_def)

lemma urljoin_absolute_path:
  assumes "take 1 p = ''/''" and "resolve_segments (split_on (CHR ''/'') p) [] = split_on (CHR ''/'') p"
    and "join_with (CHR ''/'') (split_on (CHR ''/'') p) = p"
    and "last (split_on (CHR ''/'') p) \<notin> {''.'', ''..''}"
  shows "path (urljoin base p) = p"
proof -
  from assms(1) have "p \<noteq> []" by auto
  with assms show ?thesis
    by (simp add: urljoin_def relative_reference_def unsplit_path_def Let_def)
qed

lemma token_endpoint_path: "path (urljoin base TOKEN_ENDPOINT) = ''/v1/lettucedetect/token''"
proof -
  have "path (urljoin base TOKEN_ENDPOINT) = TOKEN_ENDPOINT"
    by (rule urljoin_absolute_path) (simp_all add: TOKEN_ENDPOINT_def)
  then show ?thesis by (simp add: TOKEN_ENDPOINT_def)
qed

lemma spans_endpoint_path: "path (urljoin base SPANS_ENDPOINT) = ''/v1/lettucedetect/spans''"
proof -
  have "path (urljoin base SPANS_ENDPOINT) = SPANS_ENDPOINT"
    by (rule urljoin_absolute_path) (simp_all add: SPANS_ENDPOINT_def)
  then show ?thesis by (simp add: SPANS_ENDPOINT_def)
qed

text \<open>
  C6. A client call (\<open>detect_token\<close> or \<open>detect_spans\<close>, blocking or not) whose one request
  the network answers with response \<open>r\<close>, leaving the world as \<open>n'\<close>: if the status of \<open>r\<close> is
  outside 200..299 the call raises \<open>HTTPStatusError\<close>, an \<open>HTTPError\<close>, with the status and
  the body; if the status is in 200..299 and the body does not validate, it raises
  \<open>ValidationError\<close>; a value is returned only when the body validates, and it is that
  validated instance. In every case the world is \<open>n'\<close>: the network was used once.
\<close>

theorem client_call_errors:
  fixes net :: "'n transport" and TokenDetectionResponse :: "'t response_model"
    and SpanDetectionResponse :: "'s response_model"
  shows "(net n \<lparr>req_method = ''post'', req_url = urljoin (base_url self) TOKEN_ENDPOINT,
                 req_json = dict_of_request \<lparr>contexts = c, question = q, answer = a\<rparr>\<rparr>
            = (Inr r, n') \<longrightarrow>
          (\<forall>call \<in> {LettuceClient_detect_token net TokenDetectionResponse self c q a n,
                      LettuceClientAsync_detect_token net TokenDetectionResponse self c q a n}.
             snd call = n' \<and>
             (\<not> (200 \<le> resp_status_code r \<and> resp_status_code r \<le> 299) \<longrightarrow>
                fst call = Inl (HTTPStatusError (resp_status_code r) (resp_text r)) \<and>
                isinstance (HTTPStatusError (resp_status_code r) (resp_text r)) ''HTTPError'') \<and>
             (200 \<le> resp_status_code r \<and> resp_status_code r \<le> 299 \<and>
              TokenDetectionResponse (resp_text r) = None \<longrightarrow> fst call = Inl ValidationError) \<and>
             (\<forall>v. fst call = Inr v \<longrightarrow>
                200 \<le> resp_status_code r \<and> resp_status_code r \<le> 299 \<and>
                TokenDetectionResponse (resp_text r) = Some v)))
       \<and> (net n \<lparr>req_method = ''post'', req_url = urljoin (base_url self) SPANS_ENDPOINT,
                 req_json = dict_of_request \<lparr>contexts = c, question = q, answer = a\<rparr>\<rparr>
            = (Inr r, n') \<longrightarrow>
          (\<forall>call \<in> {LettuceClient_detect_spans net SpanDetectionResponse self c q a n,
                      LettuceClientAsync_detect_spans net SpanDetectionResponse self c q a n}.
             snd call = n' \<and>
             (\<not> (200 \<le> resp_status_code r \<and> resp_status_code r \<le> 299) \<longrightarrow>
                fst call = Inl (HTTPStatusError (resp_status_code r) (resp_text r)) \<and>
                isinstance (HTTPStatusError (resp_status_code r) (resp_text r)) ''HTTPError'') \<and>
             (200 \<le> resp_status_code r \<and> resp_status_code r \<le> 299 \<and>
              SpanDetectionResponse (resp_text r) = None \<longrightarrow> fst call = Inl ValidationError) \<and>
             (\<forall>v. fst call = Inr v \<longrightarrow>
                200 \<le> resp_status_code r \<and> resp_status_code r \<le> 299 \<and>
                SpanDetectionResponse (resp_text r) = Some v)))"
proof (intro conjI impI)
  assume sent: "net n \<lparr>req_method = ''post'', req_url = urljoin (base_url self) TOKEN_ENDPOINT,
                 req_json = dict_of_request \<lparr>contexts = c, question = q, answer = a\<rparr>\<rparr>
            = (Inr r, n')"
  show "\<forall>call \<in> {LettuceClient_detect_token net TokenDetectionResponse self c q a n,
                      LettuceClientAsync_detect_token net TokenDetectionResponse self c q a n}.
             snd call = n' \<and>
             (\<not> (200 \<le> resp_status_code r \<and> resp_status_code r \<le> 299) \<longrightarrow>
                fst call = Inl (HTTPStatusError (resp_status_code r) (resp_text r)) \<and>
                isinstance (HTTPStatusError (resp_status_code r) (resp_text r)) ''HTTPError'') \<and>
             (200 \<le> resp_status_code r \<and> resp_status_code r \<le> 299 \<and>
              TokenDetectionResponse (resp_text r) = None \<longrightarrow> fst call = Inl ValidationError) \<and>
             (\<forall>v. fst call = Inr v \<longrightarrow>
                200 \<le> resp_status_code r \<and> resp_status_code r \<le> 299 \<and>
                TokenDetectionResponse (resp_text r) = Some v)"
    by (auto simp: LettuceClient_detect_token_def LettuceClientAsync_detect_token_def
        wrapper_outcome [where net=net and n=n, OF sent]
        wrapper_async_outcome [where net=net and n=n, OF sent] HTTPStatusError_is_HTTPError
        split: option.splits if_splits)
next
  assume sent: "net n \<lparr>req_method = ''post'', req_url = urljoin (base_url self) SPANS_ENDPOINT,
                 req_json = dict_of_request \<lparr>contexts = c, question = q, answer = a\<rparr>\<rparr>
            = (Inr r, n')"
  show "\<forall>call \<in> {LettuceClient_detect_spans net SpanDetectionResponse self c q a n,
                      LettuceClientAsync_detect_spans net SpanDetectionResponse self c q a n}.
             snd call = n' \<and>
             (\<not> (200 \<le> resp_status_code r \<and> resp_status_code r \<le> 299) \<longrightarrow>
                fst call = Inl (HTTPStatusError (resp_status_code r) (resp_text r)) \<and>
                isinstance (HTTPStatusError (resp_status_code r) (resp_text r)) ''HTTPError'') \<and>
             (200 \<le> resp_status_code r \<and> resp_status_code r \<le> 299 \<and>
              SpanDetectionResponse (resp_text r) = None \<longrightarrow> fst call = Inl ValidationError) \<and>
             (\<forall>v. fst call = Inr v \<longrightarrow>
                200 \<le> resp_status_code r \<and> resp_status_code r \<le> 299 \<and>
                SpanDetectionResponse (resp_text r) = Some v)"
    by (auto simp: LettuceClient_detect_spans_def LettuceClientAsync_detect_spans_def
        wrapper_outcome [where net=net and n=n, OF sent]
        wrapper_async_outcome [where net=net and n=n, OF sent] HTTPStatusError_is_HTTPError
        split: option.splits if_splits)
qed

theorem client_call_errors_witness:
  "answering \<lparr>resp_status_code = 500, resp_text = ''Internal Server Error''\<rparr> 0
     \<lparr>req_method = ''post'', req_url = urljoin (base_url example_client) TOKEN_ENDPOINT,
      req_json = dict_of_request \<lparr>contexts = [''Paris is in France.''], question = ''Where?'',
                                  answer = ''In France.''\<rparr>\<rparr>
     = (Inr \<lparr>resp_status_code = 500, resp_text = ''Internal Server Error''\<rparr>, 1)
   \<and> LettuceClient_detect_token
         (answering \<lparr>resp_status_code = 500, resp_text = ''Internal Server Error''\<rparr>)
         example_model example_client [''Paris is in France.''] ''Where?'' ''In France.'' 0
       = (Inl (HTTPStatusError 500 ''Internal Server Error''), 1)
   \<and> LettuceClientAsync_detect_token
         (answering \<lparr>resp_status_code = 500, resp_text = ''Internal Server Error''\<rparr>)
         example_model example_client [''Paris is in France.''] ''Where?'' ''In France.'' 0
       = (Inl (HTTPStatusError 500 ''Internal Server Error''), 1)
   \<and> LettuceClient_detect_spans
         (answering \<lparr>resp_status_code = 200, resp_text = ''{}''\<rparr>)
         example_model example_client [''Paris is in France.''] ''Where?'' ''In France.'' 0
       = (Inl ValidationError, 1)
   \<and> LettuceClientAsync_detect_spans
         (answering \<lparr>resp_status_code = 200, resp_text = ''ok''\<rparr>)
         example_model example_client [''Paris is in France.''] ''Where?'' ''In France.'' 0
       = (Inr 7, 1)"
proof -
  let ?c = "[''Paris is in France.'']" and ?q = "''Where?''" and ?a = "''In France.''"
  let ?r500 = "\<lparr>resp_status_code = 500, resp_text = ''Internal Server Error''\<rparr>"
  let ?bad = "\<lparr>resp_status_code = 200, resp_text = ''{}''\<rparr>"
  let ?good = "\<lparr>resp_status_code = 200, resp_text = ''ok''\<rparr>"
  have sent: "answering r 0 rq = (Inr r, 1)" for r rq
    by (simp add: answering_def)
  have a: "LettuceClient_detect_token (answering ?r500) example_model example_client ?c ?q ?a 0
             = (Inl (HTTPStatusError 500 ''Internal Server Error''), 1)"
    and b: "LettuceClientAsync_detect_token (answering ?r500) example_model example_client ?c ?q ?a 0
             = (Inl (HTTPStatusError 500 ''Internal Server Error''), 1)"
    using client_call_errors [where net = "answering ?r500" and n = 0 and n' = 1 and r = ?r500
        and self = example_client and c = ?c and q = ?q and a = ?a
        and TokenDetectionResponse = example_model and SpanDetectionResponse = example_model]
      sent [of ?r500]
    by (simp_all add: prod_eq_iff)
  have c: "LettuceClient_detect_spans (answering ?bad) example_model example_client ?c ?q ?a 0
             = (Inl ValidationError, 1)"
    using client_call_errors [where net = "answering ?bad" and n = 0 and n' = 1 and r = ?bad
        and self = example_client and c = ?c and q = ?q and a = ?a
        and TokenDetectionResponse = example_model and SpanDetectionResponse = example_model]
      sent [of ?bad]
    by (simp add: prod_eq_iff example_model_def)
  have d: "LettuceClientAsync_detect_spans (answering ?good) example_model example_client ?c ?q ?a 0
             = (Inr 7, 1)"
    by (simp add: LettuceClientAsync_detect_spans_def wrapper_async_outcome [where net = "answering ?good" and n = 0, OF sent]
        example_model_def)
  from sent [of ?r500] a b c d show ?thesis by simp
qed

text \<open>
  C8. For every triple, every base URL and every network, the blocking and the
  non-blocking client send the same one request (method \<open>post\<close>, the URL joined from the base
  and the endpoint, the three fields as the body) and treat the answer in the same way, so
  they return equal values or raise equal exceptions and leave the network in the same
  state. This holds for the token endpoint and for the span endpoint.
\<close>

theorem sync_async_parity:
  fixes net :: "'n transport" and TokenDetectionResponse :: "'t response_model"
    and SpanDetectionResponse :: "'s response_model"
  shows "LettuceClient_detect_token net TokenDetectionResponse self c q a n =
           (case net n \<lparr>req_method = ''post'',
                         req_url = urljoin (base_url self) TOKEN_ENDPOINT,
                         req_json = [(''contexts'', PyList (map PyStr c)), (''question'', PyStr q),
                                     (''answer'', PyStr a)]\<rparr> of
              (Inl e, n') \<Rightarrow> (Inl e, n')
            | (Inr r, n') \<Rightarrow>
                (if 200 \<le> resp_status_code r \<and> resp_status_code r \<le> 299
                 then (case TokenDetectionResponse (resp_text r) of
                         None \<Rightarrow> Inl ValidationError | Some v \<Rightarrow> Inr v)
                 else Inl (HTTPStatusError (resp_status_code r) (resp_text r)), n'))
       \<and> LettuceClientAsync_detect_token net TokenDetectionResponse self c q a n =
           LettuceClient_detect_token net TokenDetectionResponse self c q a n
       \<and> LettuceClient_detect_spans net SpanDetectionResponse self c q a n =
           (case net n \<lparr>req_method = ''post'',
                         req_url = urljoin (base_url self) SPANS_ENDPOINT,
                         req_json = [(''contexts'', PyList (map PyStr c)), (''question'', PyStr q),
                                     (''answer'', PyStr a)]\<rparr> of
              (Inl e, n') \<Rightarrow> (Inl e, n')
            | (Inr r, n') \<Rightarrow>
                (if 200 \<le> resp_status_code r \<and> resp_status_code r \<le> 299
                 then (case SpanDetectionResponse (resp_text r) of
                         None \<Rightarrow> Inl ValidationError | Some v \<Rightarrow> Inr v)
                 else Inl (HTTPStatusError (resp_status_code r) (resp_text r)), n'))
       \<and> LettuceClientAsync_detect_spans net SpanDetectionResponse self c q a n =
           LettuceClient_detect_spans net SpanDetectionResponse self c q a n"
proof -
  have same: "httpx_request_wrapper_async net m u request response_model n =
              httpx_request_wrapper net m u request response_model n"
    for m u request n and response_model :: "'r response_model"
    by (simp add: httpx_request_wrapper_async_def httpx_request_wrapper_def)
  have unfolded: "httpx_request_wrapper net m u \<lparr>contexts = c, question = q, answer = a\<rparr>
                    response_model n =
           (case net n \<lparr>req_method = m, req_url = u,
                         req_json = [(''contexts'', PyList (map PyStr c)), (''question'', PyStr q),
                                     (''answer'', PyStr a)]\<rparr> of
              (Inl e, n') \<Rightarrow> (Inl e, n')
            | (Inr r, n') \<Rightarrow>
                (if 200 \<le> resp_status_code r \<and> resp_status_code r \<le> 299
                 then (case response_model (resp_text r) of
                         None \<Rightarrow> Inl ValidationError | Some v \<Rightarrow> Inr v)
                 else Inl (HTTPStatusError (resp_status_code r) (resp_text r)), n'))"
    for m u and response_model :: "'r response_model"
    by (simp add: httpx_request_wrapper_def raise_for_status_def model_validate_json_def
        dict_of_request_def split: prod.splits sum.splits)
  show ?thesis
    by (simp only: LettuceClient_detect_token_def LettuceClient_detect_spans_def
        LettuceClientAsync_detect_token_def LettuceClientAsync_detect_spans_def
        Let_def same unfolded simp_thms)
qed

theorem sync_async_parity_witness:
  "LettuceClient_detect_token
      (answering \<lparr>resp_status_code = 200, resp_text = ''ok''\<rparr>)
      example_model example_client [''Paris is in France.''] ''Where?'' ''In France.'' 0
     = (Inr 7, 1)
   \<and> LettuceClientAsync_detect_token
      (answering \<lparr>resp_status_code = 200, resp_text = ''ok''\<rparr>)
      example_model example_client [''Paris is in France.''] ''Where?'' ''In France.'' 0
     = (Inr 7, 1)
   \<and> LettuceClient_detect_spans
      (answering \<lparr>resp_status_code = 503, resp_text = ''busy''\<rparr>)
      example_model example_client [''Paris is in France.''] ''Where?'' ''In France.'' 0
     = (Inl (HTTPStatusError 503 ''busy''), 1)
   \<and> LettuceClientAsync_detect_spans
      (answering \<lparr>resp_status_code = 503, resp_text = ''busy''\<rparr>)
      example_model example_client [''Paris is in France.''] ''Where?'' ''In France.'' 0
     = (Inl (HTTPStatusError 503 ''busy''), 1)"
proof -
  note T1 = sync_async_parity [where net = "answering \<lparr>resp_status_code = 200, resp_text = ''ok''\<rparr>"
      and TokenDetectionResponse = example_model and SpanDetectionResponse = example_model
      and self = example_client and c = "[''Paris is in France.'']" and q = "''Where?''"
      and a = "''In France.''" and n = 0]
  note T2 = sync_async_parity [where net = "answering \<lparr>resp_status_code = 503, resp_text = ''busy''\<rparr>"
      and TokenDetectionResponse = example_model and SpanDetectionResponse = example_model
      and self = example_client and c = "[''Paris is in France.'']" and q = "''Where?''"
      and a = "''In France.''" and n = 0]
  from T1 T2 show ?thesis
    by (simp add: answering_def example_model_def)
qed

text \<open>
  C9. Whatever the base URL, the client's requests go to the paths
  \<open>/v1/lettucedetect/token\<close> and \<open>/v1/lettucedetect/spans\<close>. The server has its two detection
  handlers at \<open>/lettucedetect/token\<close> and \<open>/lettucedetect/spans\<close>, and no route of it has either
  of the client's paths: for every method the router finds nothing there. So each of the
  four client calls, carried to this server, is answered 404 and raises \<open>HTTPStatusError\<close>,
  and the detector is left untouched.
\<close>

theorem client_paths_miss_routes:
  fixes predict :: "'d predict" and TokenDetectionResponse :: "'t response_model"
    and SpanDetectionResponse :: "'s response_model"
  shows "path (urljoin (base_url self) TOKEN_ENDPOINT) = ''/v1/lettucedetect/token''
       \<and> path (urljoin (base_url self) SPANS_ENDPOINT) = ''/v1/lettucedetect/spans''
       \<and> map fst (filter (\<lambda>(p, ms, ep). ep \<noteq> Docs) routes)
           = [''/lettucedetect/token'', ''/lettucedetect/spans'']
       \<and> path (urljoin (base_url self) TOKEN_ENDPOINT) \<notin> set (map fst routes)
       \<and> path (urljoin (base_url self) SPANS_ENDPOINT) \<notin> set (map fst routes)
       \<and> match_route http_method (path (urljoin (base_url self) TOKEN_ENDPOINT)) = NotFound
       \<and> match_route http_method (path (urljoin (base_url self) SPANS_ENDPOINT)) = NotFound
       \<and> LettuceClient_detect_token
           (deliver predict parse_body serialize_response encode_json render)
           TokenDetectionResponse self c q a detector
           = (Inl (HTTPStatusError 404
                     (render (JSONContent (PyDict [(''detail'', PyStr ''Not Found'')])))), detector)
       \<and> LettuceClientAsync_detect_token
           (deliver predict parse_body serialize_response encode_json render)
           TokenDetectionResponse self c q a detector
           = (Inl (HTTPStatusError 404
                     (render (JSONContent (PyDict [(''detail'', PyStr ''Not Found'')])))), detector)
       \<and> LettuceClient_detect_spans
           (deliver predict parse_body serialize_response encode_json render)
           SpanDetectionResponse self c q a detector
           = (Inl (HTTPStatusError 404
                     (render (JSONContent (PyDict [(''detail'', PyStr ''Not Found'')])))), detector)
       \<and> LettuceClientAsync_detect_spans
           (deliver predict parse_body serialize_response encode_json render)
           SpanDetectionResponse self c q a detector
           = (Inl (HTTPStatusError 404
                     (render (JSONContent (PyDict [(''detail'', PyStr ''Not Found'')])))), detector)"
proof -
  have nf_token: "match_route m ''/v1/lettucedetect/token'' = NotFound" for m
    by (simp add: match_route_def routes_def)
  have nf_spans: "match_route m ''/v1/lettucedetect/spans'' = NotFound" for m
    by (simp add: match_route_def routes_def)
  have handlers: "map fst (filter (\<lambda>(p, ms, ep). ep \<noteq> Docs) routes)
           = [''/lettucedetect/token'', ''/lettucedetect/spans'']"
    by (simp add: routes_def)
  have not_token: "''/v1/lettucedetect/token'' \<notin> set (map fst routes)"
    by (simp add: routes_def)
  have not_spans: "''/v1/lettucedetect/spans'' \<notin> set (map fst routes)"
    by (simp add: routes_def)
  have d_token: "deliver predict parse_body serialize_response encode_json render detector
           \<lparr>req_method = m, req_url = urljoin (base_url self) TOKEN_ENDPOINT, req_json = j\<rparr>
         = (Inr \<lparr>resp_status_code = 404,
                 resp_text = render (JSONContent (PyDict [(''detail'', PyStr ''Not Found'')]))\<rparr>,
            detector)" for m j
    by (simp add: deliver_def app_def token_endpoint_path nf_token)
  have d_spans: "deliver predict parse_body serialize_response encode_json render detector
           \<lparr>req_method = m, req_url = urljoin (base_url self) SPANS_ENDPOINT, req_json = j\<rparr>
         = (Inr \<lparr>resp_status_code = 404,
                 resp_text = render (JSONContent (PyDict [(''detail'', PyStr ''Not Found'')]))\<rparr>,
            detector)" for m j
    by (simp add: deliver_def app_def spans_endpoint_path nf_spans)
  from not_token not_spans show ?thesis
    by (simp add: token_endpoint_path spans_endpoint_path handlers
        nf_token nf_spans LettuceClient_detect_token_def LettuceClientAsync_detect_token_def
        LettuceClient_detect_spans_def LettuceClientAsync_detect_spans_def
        wrapper_outcome [where net = "deliver predict parse_body serialize_response encode_json render"
                           and n = detector, OF d_token]
        wrapper_async_outcome [where net = "deliver predict parse_body serialize_response encode_json render"
                           and n = detector, OF d_token]
        wrapper_outcome [where net = "deliver predict parse_body serialize_response encode_json render"
                           and n = detector, OF d_spans]
        wrapper_async_outcome [where net = "deliver predict parse_body serialize_response encode_json render"
                           and n = detector, OF d_spans])
qed

theorem client_paths_miss_routes_witness:
  "LettuceClient_detect_token
      (deliver example_predict accept_body keep_returned encode_nothing render_kind)
      example_model example_client (contexts example_request) (question example_request)
      (answer example_request) 0
     = (Inl (HTTPStatusError 404 ''json''), 0)
   \<and> LettuceClientAsync_detect_spans
      (deliver example_predict accept_body keep_returned encode_nothing render_kind)
      example_model example_client (contexts example_request) (question example_request)
      (answer example_request) 0
     = (Inl (HTTPStatusError 404 ''json''), 0)
   \<and> fst (app example_predict accept_body keep_returned 0 ''POST'' ''/lettucedetect/token'' [])
     = \<lparr>status_code = 200,
        content = JSONContent (PyDict [(''predictions'', PyList
          [PyDict [(''token'', PyStr ''The''), (''hallucination_score'', PyFloat (Finite (1 / 100)))],
           PyDict [(''token'', PyStr ''Paris''), (''hallucination_score'', PyFloat (Finite (9 / 10)))]])])\<rparr>
   \<and> snd (app example_predict accept_body keep_returned 0 ''POST'' ''/lettucedetect/token'' []) = 1"
proof -
  note T = client_paths_miss_routes [where predict = example_predict and parse_body = accept_body
      and serialize_response = keep_returned and encode_json = encode_nothing
      and render = render_kind and TokenDetectionResponse = example_model
      and SpanDetectionResponse = example_model and self = example_client
      and c = "contexts example_request" and q = "question example_request"
      and a = "answer example_request" and detector = 0 and http_method = "''POST''"]
  have served: "app example_predict accept_body keep_returned 0 ''POST'' ''/lettucedetect/token'' []
     = (\<lparr>status_code = 200,
        content = JSONContent (PyDict [(''predictions'', PyList
          [PyDict [(''token'', PyStr ''The''), (''hallucination_score'', PyFloat (Finite (1 / 100)))],
           PyDict [(''token'', PyStr ''Paris''), (''hallucination_score'', PyFloat (Finite (9 / 10)))]])])\<rparr>,
        1)"
    by (simp add: app_def match_route_token accept_body_def keep_returned_def call_handler_def
        run_token_detection_def run_detector_safe_def example_predict_def example_tokens_def
        token_item_def)
  from T served show ?thesis
    by (simp add: render_kind_def)
qed

section \<open>Properties of the launch script\<close>

text \<open>What a store action leaves as the method: \<open>--model\<close> does not touch it, and \<open>--method\<close>
  stores \<open>'transformer'\<close>, or the empty list when its one string was \<open>--\<close> and the release
  removed it.\<close>

lemma take_action_stored:
  assumes "take_action lib a [v] namespace = Inr namespace'"
  shows "(a = ModelAction \<and> arg_method namespace' = arg_method namespace)
       \<or> (a = MethodAction \<and> arg_method namespace' = PyStr ''transformer'')
       \<or> (a = MethodAction \<and> strips_option_dashes lib \<and> v = ''--''
            \<and> arg_method namespace' = PyList [])"
  using assms
  by (cases a)
    (auto simp: take_action_def get_values_def check_value_def choices_def
      split: if_splits sum.splits)

lemma partition_eq_join:
  assumes "partition_eq s = (p, sep, r)" and "sep \<noteq> []"
  shows "s = p @ ''='' @ r"
proof -
  from assms have mem: "CHR ''='' \<in> set s"
    by (auto simp: partition_eq_def split: if_splits)
  with assms have p: "p = takeWhile (\<lambda>c. c \<noteq> CHR ''='') s"
    and r: "r = tl (dropWhile (\<lambda>c. c \<noteq> CHR ''='') s)"
    by (simp_all add: partition_eq_def)
  from mem have ne: "dropWhile (\<lambda>c. c \<noteq> CHR ''='') s \<noteq> []"
    by (auto simp: dropWhile_eq_Nil_conv)
  then have "hd (dropWhile (\<lambda>c. c \<noteq> CHR ''='') s) = CHR ''=''"
    using hd_dropWhile [of "\<lambda>c. c \<noteq> CHR ''=''" s] by simp
  with ne have "dropWhile (\<lambda>c. c \<noteq> CHR ''='') s = CHR ''='' # r"
    unfolding r by (cases "dropWhile (\<lambda>c. c \<noteq> CHR ''='') s") simp_all
  then have "s = p @ CHR ''='' # r"
    unfolding p using takeWhile_dropWhile_id [of "\<lambda>c. c \<noteq> CHR ''=''" s] by simp
  then show ?thesis by simp
qed

lemma startswith_method:
  assumes "startswith ''--method'' p"
  shows "p \<in> set [[], ''-'', ''--'', ''--m'', ''--me'', ''--met'', ''--meth'', ''--metho'',
                  ''--method'']"
proof -
  from assms have eq: "take (length p) ''--method'' = p"
    by (simp add: startswith_def)
  from arg_cong [OF eq, of length] have "length p \<le> 8"
    by simp
  then consider "length p = 0" | "length p = 1" | "length p = 2" | "length p = 3"
    | "length p = 4" | "length p = 5" | "length p = 6" | "length p = 7" | "length p = 8"
    by linarith
  then show ?thesis
  proof cases
    case 1 then show ?thesis by simp
  next
    case 2 with eq show ?thesis by simp
  next
    case 3 with eq show ?thesis by (simp add: numeral_2_eq_2)
  next
    case 4 with eq show ?thesis by (simp add: numeral_3_eq_3)
  next
    case 5 with eq show ?thesis by (simp add: eval_nat_numeral)
  next
    case 6 with eq show ?thesis by (simp add: eval_nat_numeral)
  next
    case 7 with eq show ?thesis by (simp add: eval_nat_numeral)
  next
    case 8 with eq show ?thesis by (simp add: eval_nat_numeral)
  next
    case 9 with eq show ?thesis by (simp add: eval_nat_numeral)
  qed
qed

lemma long_tuples_method:
  assumes two: "take 2 arg = ''--''"
    and part: "partition_eq arg = (p, sp, r)"
    and mem: "(Some MethodAction, os, sep, ex) \<in> set (get_option_tuples arg)"
  shows "startswith ''--method'' p
       \<and> sep = (if sp = [] then None else Some sp)
       \<and> ex = (if sp = [] then None else Some r)"
  using mem unfolding get_option_tuples_def
  by (simp add: two part option_string_actions_def split: if_splits)

lemma long_tuples_model:
  assumes two: "take 2 arg = ''--''"
    and part: "partition_eq arg = (p, sp, r)"
    and starts: "startswith ''--model'' p"
  shows "(Some ModelAction, ''--model'', if sp = [] then None else Some sp,
          if sp = [] then None else Some r) \<in> set (get_option_tuples arg)"
  unfolding get_option_tuples_def
  using starts by (simp add: two part option_string_actions_def)

lemma short_tuples_method:
  assumes two: "take 2 arg \<noteq> ''--''"
    and mem: "(Some MethodAction, os, sep, Some e) \<in> set (get_option_tuples arg)"
  shows False
proof -
  have "''--method'' \<noteq> take 2 arg"
  proof
    assume "''--method'' = take 2 arg"
    from arg_cong [OF this, of length] show False by simp
  qed
  with mem show False
    unfolding get_option_tuples_def
    by (simp add: two option_string_actions_def split: if_splits)
qed

lemma parse_optional_unique:
  assumes "parse_optional arg = Optional (Some MethodAction) os sep (Some e)"
  shows "map_of option_string_actions arg = None"
proof (cases "map_of option_string_actions arg")
  case None
  then show ?thesis .
next
  case (Some a)
  with assms show ?thesis
    by (simp add: parse_optional_def split: if_splits)
qed

lemma parse_optional_unfold:
  assumes ne: "arg \<noteq> []" and dash: "hd arg = CHR ''-''"
    and known: "map_of option_string_actions arg = None"
    and len: "length arg \<noteq> 1"
    and part: "partition_eq arg = (p, sp, r)"
  shows "parse_optional arg =
     (case (if sp \<noteq> [] then map_of option_string_actions p else None) of
        Some a \<Rightarrow> Optional (Some a) p (Some sp) (Some r)
      | None \<Rightarrow>
          (case get_option_tuples arg of
             [] \<Rightarrow>
               if negative_number_like arg then Positional
               else if CHR '' '' \<in> set arg then Positional
               else Optional None arg None None
           | [(a, os, sp, ex)] \<Rightarrow> Optional a os sp ex
           | _ \<Rightarrow> Ambiguous))"
  using ne dash len by (simp add: parse_optional_def known part)

text \<open>An option string of \<open>--method\<close> with an explicit argument is \<open>--method\<close>, or an
  abbreviation that no other option shares, followed by \<open>=\<close> and the argument.\<close>

lemma parse_optional_method_explicit:
  assumes opt: "parse_optional arg = Optional (Some MethodAction) os sep (Some e)"
  shows "\<exists>flag \<in> set [''--method'', ''--metho'', ''--meth'', ''--met'', ''--me''].
           arg = flag @ ''='' @ e"
proof -
  obtain p sp r where part: "partition_eq arg = (p, sp, r)"
    by (cases "partition_eq arg") auto
  have known: "map_of option_string_actions arg = None"
    using opt by (rule parse_optional_unique)
  from opt have ne: "arg \<noteq> []" and dash: "hd arg = CHR ''-''"
    by (auto simp: parse_optional_def split: if_splits)
  from opt known ne dash have len: "length arg \<noteq> 1"
    by (auto simp: parse_optional_def split: if_splits)
  note unfold = parse_optional_unfold [OF ne dash known len part]
  show ?thesis
  proof (cases "if sp \<noteq> [] then map_of option_string_actions p else None")
    case (Some a)
    with opt unfold have a: "a = MethodAction" and e: "e = r"
      by simp_all
    from Some have sp: "sp \<noteq> []" and p: "map_of option_string_actions p = Some a"
      by (simp_all split: if_splits)
    from p a have "p = ''--method''"
      by (auto simp: option_string_actions_def split: if_splits)
    moreover from sp have "arg = p @ ''='' @ r"
      using partition_eq_join [OF part] by simp
    ultimately show ?thesis using e by simp
  next
    case None
    with opt unfold have tuples:
      "(case get_option_tuples arg of
          [] \<Rightarrow>
            if negative_number_like arg then Positional
            else if CHR '' '' \<in> set arg then Positional
            else Optional None arg None None
        | [(a, os, sp, ex)] \<Rightarrow> Optional a os sp ex
        | _ \<Rightarrow> Ambiguous) = Optional (Some MethodAction) os sep (Some e)"
      by simp
    have only: "get_option_tuples arg = [(Some MethodAction, os, sep, Some e)]"
    proof (cases "get_option_tuples arg")
      case Nil
      with tuples show ?thesis by (simp split: if_splits)
    next
      case (Cons t ts)
      show ?thesis
      proof (cases ts)
        case Nil
        with tuples Cons show ?thesis by (cases t) simp
      next
        case inner: (Cons u us)
        with tuples Cons show ?thesis by (cases t) simp
      qed
    qed
    then have mem: "(Some MethodAction, os, sep, Some e) \<in> set (get_option_tuples arg)"
      by simp
    show ?thesis
    proof (cases "take 2 arg = ''--''")
      case False
      with mem show ?thesis using short_tuples_method by blast
    next
      case True
      from long_tuples_method [OF True part mem]
      have starts: "startswith ''--method'' p" and sp: "sp \<noteq> []" and e: "e = r"
        by (simp_all split: if_splits)
      have "\<not> startswith ''--model'' p"
      proof
        assume "startswith ''--model'' p"
        from long_tuples_model [OF True part this] show False
          unfolding only by simp
      qed
      with startswith_method [OF starts]
      have "p \<in> set [''--method'', ''--metho'', ''--meth'', ''--met'', ''--me'']"
        by (auto simp: startswith_def)
      moreover from sp have "arg = p @ ''='' @ r"
        using partition_eq_join [OF part] by simp
      ultimately show ?thesis using e by blast
    qed
  qed
qed

text \<open>One round of the loop of \<open>consume_args\<close>: it stops at \<open>--\<close>, or exits, or goes on with
  the rest, or stores the next string and goes on after it.\<close>

lemma consume_args_cases:
  obtains
    (double_dash) "arg_string = ''--''"
      "consume_args lib (arg_string # rest) namespace extras
         = Inr (namespace, extras @ arg_string # rest)"
  | (exits) x where "consume_args lib (arg_string # rest) namespace extras = Inl x"
  | (skip) extras2 where
      "consume_args lib (arg_string # rest) namespace extras
         = consume_args lib rest namespace extras2"
  | (explicit) a os sep e namespace2 where
      "parse_optional arg_string = Optional (Some a) os sep (Some e)"
      "take_action lib a [e] namespace = Inr namespace2"
      "consume_args lib (arg_string # rest) namespace extras
         = consume_args lib rest namespace2 extras"
  | (following) a v rest' namespace2 where "rest = v # rest'" "is_argument v"
      "take_action lib a [v] namespace = Inr namespace2"
      "consume_args lib (arg_string # rest) namespace extras
         = consume_args lib rest' namespace2 extras"
proof (cases "arg_string = ''--''")
  case True
  then show ?thesis by (intro double_dash) simp_all
next
  case not_dd: False
  show ?thesis
  proof (cases "parse_optional arg_string")
    case Positional
    with not_dd show ?thesis by (intro skip [of "extras @ [arg_string]"]) simp
  next
    case Ambiguous
    with not_dd show ?thesis by (intro exits [of "SystemExit 2"]) simp
  next
    case (Optional act os sep ex)
    show ?thesis
    proof (cases act)
      case None
      with not_dd Optional show ?thesis by (intro skip [of "extras @ [arg_string]"]) simp
    next
      case (Some a)
      show ?thesis
      proof (cases "a = HelpAction")
        case True
        with not_dd Optional Some show ?thesis
          by (intro exits [of "help_exit lib os sep ex"]) simp
      next
        case not_help: False
        have step: "consume_args lib (arg_string # rest) namespace extras =
            (case ex of
               Some e \<Rightarrow>
                 (case take_action lib a [e] namespace of
                    Inl x \<Rightarrow> Inl x
                  | Inr namespace' \<Rightarrow> consume_args lib rest namespace' extras)
             | None \<Rightarrow>
                 (case rest of
                    [] \<Rightarrow> Inl (SystemExit 2)
                  | v # rest' \<Rightarrow>
                      if is_argument v then
                        (case take_action lib a [v] namespace of
                           Inl x \<Rightarrow> Inl x
                         | Inr namespace' \<Rightarrow> consume_args lib rest' namespace' extras)
                      else Inl (SystemExit 2)))"
          using not_dd Optional Some not_help by (cases a; cases ex) (auto split: list.splits)
        show ?thesis
        proof (cases ex)
          case (Some e)
          show ?thesis
          proof (cases "take_action lib a [e] namespace")
            case (Inl x)
            with step Some show ?thesis by (intro exits [of x]) simp
          next
            case (Inr namespace2)
            with step Some Optional \<open>act = Some a\<close> show ?thesis
              by (intro explicit [of a os sep e namespace2]) simp_all
          qed
        next
          case None
          show ?thesis
          proof (cases rest)
            case Nil
            with step None show ?thesis by (intro exits [of "SystemExit 2"]) simp
          next
            case (Cons v rest')
            show ?thesis
            proof (cases "is_argument v")
              case False
              with step None Cons show ?thesis by (intro exits [of "SystemExit 2"]) simp
            next
              case True
              show ?thesis
              proof (cases "take_action lib a [v] namespace")
                case (Inl x)
                with step None Cons True show ?thesis by (intro exits [of x]) simp
              next
                case (Inr namespace2)
                with step None Cons True show ?thesis
                  by (intro following [of v rest' a namespace2]) simp_all
              qed
            qed
          qed
        qed
      qed
    qed
  qed
qed


text \<open>The method of the namespace stays \<open>'transformer'\<close> through the loop, unless the release
  removes \<open>--\<close> and the command line has \<open>--method=--\<close> (or an abbreviation); \<open>found\<close> is any
  fact that follows from such a string being there.\<close>

lemma consume_args_method:
  assumes run: "consume_args lib argv namespace extras = Inr (namespace', extras')"
    and found: "\<And>flag. flag \<in> set [''--method'', ''--metho'', ''--meth'', ''--met'', ''--me'']
                  \<Longrightarrow> flag @ ''=--'' \<in> set argv \<Longrightarrow> found"
    and start: "arg_method namespace = PyStr ''transformer''
                \<or> (strips_option_dashes lib \<and> arg_method namespace = PyList [] \<and> found)"
  shows "arg_method namespace' = PyStr ''transformer''
         \<or> (strips_option_dashes lib \<and> arg_method namespace' = PyList [] \<and> found)"
  using run found start
proof (induction "length argv" arbitrary: argv namespace extras rule: less_induct)
  case less
  show ?case
  proof (cases argv)
    case Nil
    with less.prems show ?thesis by simp
  next
    case (Cons arg_string rest)
    have found_rest: "found"
      if "flag \<in> set [''--method'', ''--metho'', ''--meth'', ''--met'', ''--me'']"
        and "flag @ ''=--'' \<in> set rest" for flag
      using that less.prems(2) [of flag] Cons by simp
    show ?thesis
    proof (cases rule: consume_args_cases [where lib = lib and arg_string = arg_string
        and rest = rest and namespace = namespace and extras = extras])
      case double_dash
      with less.prems Cons show ?thesis by simp
    next
      case (exits x)
      with less.prems Cons show ?thesis by simp
    next
      case (skip extras2)
      with less.prems(1) Cons
      have "consume_args lib rest namespace extras2 = Inr (namespace', extras')"
        by simp
      from less.hyps [OF _ this found_rest less.prems(3)] Cons show ?thesis
        by simp
    next
      case (explicit a os sep e namespace2)
      have start2: "arg_method namespace2 = PyStr ''transformer''
          \<or> (strips_option_dashes lib \<and> arg_method namespace2 = PyList [] \<and> found)"
      proof (cases "a = MethodAction \<and> strips_option_dashes lib \<and> e = ''--''
          \<and> arg_method namespace2 = PyList []")
        case True
        with explicit(1)
        obtain flag where "flag \<in> set [''--method'', ''--metho'', ''--meth'', ''--met'', ''--me'']"
          and "arg_string = flag @ ''='' @ ''--''"
          using parse_optional_method_explicit [of arg_string os sep e] by blast
        with less.prems(2) [of flag] Cons have found by simp
        with True show ?thesis by simp
      next
        case False
        with take_action_stored [OF explicit(2)] less.prems(3) show ?thesis by auto
      qed
      from less.prems(1) Cons explicit(3)
      have "consume_args lib rest namespace2 extras = Inr (namespace', extras')"
        by simp
      from less.hyps [OF _ this found_rest start2] Cons show ?thesis
        by simp
    next
      case (following a v rest' namespace2)
      from following(2) have "v \<noteq> ''--''"
        by (simp add: is_argument_def)
      with take_action_stored [OF following(3)] less.prems(3)
      have start2: "arg_method namespace2 = PyStr ''transformer''
          \<or> (strips_option_dashes lib \<and> arg_method namespace2 = PyList [] \<and> found)"
        by auto
      have found_rest': "found"
        if "flag \<in> set [''--method'', ''--metho'', ''--meth'', ''--met'', ''--me'']"
          and "flag @ ''=--'' \<in> set rest'" for flag
        using that found_rest [of flag] following(1) by simp
      from less.prems(1) Cons following(4)
      have "consume_args lib rest' namespace2 extras = Inr (namespace', extras')"
        by simp
      from less.hyps [OF _ this found_rest' start2] Cons following(1) show ?thesis
        by simp
    qed
  qed
qed

lemma parse_args_method:
  assumes "parse_args lib argv = Inr args"
  shows "arg_method args = PyStr ''transformer''
         \<or> (strips_option_dashes lib \<and> arg_method args = PyList []
            \<and> (\<exists>flag \<in> set [''--method'', ''--metho'', ''--meth'', ''--met'', ''--me''].
                  flag @ ''=--'' \<in> set argv))"
proof -
  from assms obtain extras where "consume_args lib argv defaults [] = Inr (args, extras)"
    by (auto simp: parse_args_def split: if_splits sum.splits)
  moreover have "arg_method defaults = PyStr ''transformer''"
    by (simp add: defaults_def)
  ultimately show ?thesis
    using consume_args_method [where lib = lib and argv = argv and namespace = defaults
        and extras = "[]" and namespace' = args and extras' = extras
        and found = "\<exists>flag \<in> set [''--method'', ''--metho'', ''--meth'', ''--met'', ''--me''].
                  flag @ ''=--'' \<in> set argv"]
    by blast
qed

text \<open>With a setting that is no string \<open>_run_fastapi\<close> raises before it starts anything.\<close>

lemma run_fastapi_list:
  assumes "arg_method args = PyList []"
  shows "\<exists>msg. run_fastapi args = Inl (TypeError msg)"
  using assms by (cases "arg_model args") (simp_all add: run_fastapi_def fsencode_def)

lemma method_flag_optional:
  assumes "flag \<in> set [''--method'', ''--metho'', ''--meth'', ''--met'', ''--me'']"
  shows "parse_optional flag = Optional (Some MethodAction) ''--method'' None None"
proof -
  have "parse_optional ''--method'' = Optional (Some MethodAction) ''--method'' None None"
    by code_simp
  moreover have "parse_optional ''--metho'' = Optional (Some MethodAction) ''--method'' None None"
    by code_simp
  moreover have "parse_optional ''--meth'' = Optional (Some MethodAction) ''--method'' None None"
    by code_simp
  moreover have "parse_optional ''--met'' = Optional (Some MethodAction) ''--method'' None None"
    by code_simp
  moreover have "parse_optional ''--me'' = Optional (Some MethodAction) ''--method'' None None"
    by code_simp
  ultimately show ?thesis using assms by auto
qed

lemma partition_eq_explicit:
  assumes "CHR ''='' \<notin> set flag"
  shows "partition_eq (flag @ ''='' @ v) = (flag, ''='', v)"
  using assms by (simp add: partition_eq_def takeWhile_append dropWhile_append)

lemma method_flag_explicit:
  assumes flag: "flag \<in> set [''--method'', ''--metho'', ''--meth'', ''--met'', ''--me'']"
    and arg: "arg = flag @ ''='' @ v"
  shows "parse_optional arg = Optional (Some MethodAction) ''--method'' (Some ''='') (Some v)"
proof -
  from flag have noeq: "CHR ''='' \<notin> set flag" by auto
  have p: "partition_eq arg = (flag, ''='', v)"
    unfolding arg by (rule partition_eq_explicit [OF noeq])
  from flag have m: "map_of option_string_actions arg = None"
    unfolding arg by (auto simp: option_string_actions_def)
  from flag have k: "map_of option_string_actions flag =
      (if flag = ''--method'' then Some MethodAction else None)"
    by (auto simp: option_string_actions_def)
  have t: "get_option_tuples arg = [(Some MethodAction, ''--method'', Some ''='', Some v)]"
    if "flag \<noteq> ''--method''"
    using flag that unfolding get_option_tuples_def p
    by (auto simp: arg option_string_actions_def startswith_def)
  from flag have shape: "arg \<noteq> []" "hd arg = CHR ''-''" "length arg \<noteq> 1"
    unfolding arg by auto
  show ?thesis
  proof (cases "flag = ''--method''")
    case True
    with k have "map_of option_string_actions flag = Some MethodAction" by simp
    with shape True show ?thesis
      by (simp add: parse_optional_def p m)
  next
    case False
    with k have "map_of option_string_actions flag = None" by simp
    with shape t [OF False] show ?thesis
      by (simp add: parse_optional_def p m)
  qed
qed

lemma take_action_other_method:
  assumes "v \<noteq> ''transformer''" and "strips_option_dashes lib \<longrightarrow> v \<noteq> ''--''"
  shows "take_action lib MethodAction [v] namespace = Inl (SystemExit 2)"
  using assms by (auto simp: take_action_def get_values_def check_value_def choices_def)

lemma consume_method_following:
  assumes flag: "flag \<in> set [''--method'', ''--metho'', ''--meth'', ''--met'', ''--me'']"
    and v: "v \<noteq> ''transformer''"
  shows "consume_args lib (flag # v # post) namespace extras = Inl (SystemExit 2)"
proof -
  from flag have dd: "flag \<noteq> ''--''" by auto
  show ?thesis
  proof (cases "is_argument v")
    case True
    then have "v \<noteq> ''--''" by (simp add: is_argument_def)
    with v have "take_action lib MethodAction [v] namespace = Inl (SystemExit 2)"
      by (intro take_action_other_method) simp_all
    with dd True show ?thesis
      by (simp add: method_flag_optional [OF flag])
  next
    case False
    with dd show ?thesis
      by (simp add: method_flag_optional [OF flag])
  qed
qed

lemma consume_method_explicit:
  assumes flag: "flag \<in> set [''--method'', ''--metho'', ''--meth'', ''--met'', ''--me'']"
    and v: "v \<noteq> ''transformer''"
    and kept: "strips_option_dashes lib \<longrightarrow> v \<noteq> ''--''"
    and arg: "arg = flag @ ''='' @ v"
  shows "consume_args lib (arg # post) namespace extras = Inl (SystemExit 2)"
proof -
  from flag have "arg \<noteq> ''--''" unfolding arg by auto
  then show ?thesis
    by (simp add: method_flag_explicit [OF flag arg] take_action_other_method [OF v kept])
qed

text \<open>A string that exits wherever it is reached, and that no option before it can take as
  its argument, makes the whole command line fail, whatever stands before it.\<close>

lemma consume_args_prefix:
  assumes exits:
      "\<And>namespace extras. \<exists>x. consume_args lib (b # rest) namespace extras = Inl x"
    and not_arg: "\<not> is_argument b"
  shows "consume_args lib (pre @ b # rest) namespace extras \<noteq> Inr (namespace', [])"
proof (induction "length pre" arbitrary: pre namespace extras rule: less_induct)
  case less
  show ?case
  proof (cases pre)
    case Nil
    with exits [of namespace extras] show ?thesis by auto
  next
    case (Cons a pre')
    show ?thesis
    proof (cases rule: consume_args_cases [where lib = lib and arg_string = a
        and rest = "pre' @ b # rest"
        and namespace = namespace and extras = extras])
      case double_dash
      with Cons show ?thesis by simp
    next
      case (exits x)
      with Cons show ?thesis by simp
    next
      case (skip extras2)
      with Cons less.hyps [of pre' namespace extras2] show ?thesis by simp
    next
      case (explicit act os sep e namespace2)
      with Cons less.hyps [of pre' namespace2 extras] show ?thesis by simp
    next
      case (following act v rest' namespace2)
      show ?thesis
      proof (cases pre')
        case Nil
        with following not_arg show ?thesis by simp
      next
        case inner: (Cons w pre'')
        with following have "rest' = pre'' @ b # rest" by simp
        with following Cons inner less.hyps [of pre'' namespace2 extras] show ?thesis by simp
      qed
    qed
  qed
qed

lemma parse_args_prefix:
  assumes exits:
      "\<And>namespace extras. \<exists>x. consume_args lib (b # rest) namespace extras = Inl x"
    and not_arg: "\<not> is_argument b"
  shows "\<exists>x. parse_args lib (pre @ b # rest) = Inl x"
proof (cases "parse_args lib (pre @ b # rest)")
  case (Inl x)
  then show ?thesis by blast
next
  case (Inr args)
  then have "consume_args lib (pre @ b # rest) defaults [] = Inr (args, [])"
    by (auto simp: parse_args_def split: if_splits sum.splits)
  with consume_args_prefix [OF exits not_arg] show ?thesis by blast
qed

lemma main_exits: "parse_args lib argv = Inl x \<Longrightarrow> main lib argv = Inl (Exit x)"
  by (simp add: main_def)

text \<open>
  C10, as the code has it. Whatever the command line and the release of argparse, a
  namespace that \<open>_argparse\<close> returns has \<open>method = 'transformer'\<close>, with one exception: under a
  release that removes \<open>--\<close> from the strings of an option, \<open>--method=--\<close> (or an abbreviation
  that argparse accepts, with \<open>=--\<close>) can leave \<open>method = []\<close>, and then \<open>main\<close> ends with a
  \<open>TypeError\<close> from \<open>subprocess.run\<close> and starts no subprocess. A command line that gives
  \<open>--method\<close> (or an abbreviation) any value other than \<open>'transformer'\<close>, as the next string or
  after \<open>=\<close> (there not \<open>--\<close> under such a release), makes the parser exit, so that \<open>main\<close>
  exits before \<open>_run_fastapi\<close> and starts no subprocess. With no arguments, with
  \<open>--method transformer\<close> and with \<open>--model\<close> alone the method is \<open>'transformer'\<close>, and \<open>main\<close>
  starts the server with it.
\<close>

theorem method_choices:
  "(\<forall>args. parse_args lib argv = Inr args \<longrightarrow>
      arg_method args = PyStr ''transformer''
      \<or> (strips_option_dashes lib \<and> arg_method args = PyList []
         \<and> (\<exists>f \<in> set [''--method'', ''--metho'', ''--meth'', ''--met'', ''--me''].
               f @ ''=--'' \<in> set argv)
         \<and> (\<exists>msg. main lib argv = Inl (Exception (TypeError msg)))))
   \<and> (flag \<in> set [''--method'', ''--metho'', ''--meth'', ''--met'', ''--me''] \<and>
      v \<noteq> ''transformer'' \<longrightarrow>
        (\<exists>x. parse_args lib (pre @ flag # v # post) = Inl x \<and>
              main lib (pre @ flag # v # post) = Inl (Exit x)) \<and>
        ((strips_option_dashes lib \<longrightarrow> v \<noteq> ''--'') \<longrightarrow>
           (\<exists>x. parse_args lib (pre @ (flag @ ''='' @ v) # post) = Inl x \<and>
                 main lib (pre @ (flag @ ''='' @ v) # post) = Inl (Exit x))))
   \<and> parse_args lib [] = Inr defaults
   \<and> arg_method defaults = PyStr ''transformer''
   \<and> parse_args lib [''--method'', ''transformer''] = Inr defaults
   \<and> (is_argument m \<longrightarrow>
        parse_args lib [''--model'', m] = Inr (defaults\<lparr>arg_model := PyStr m\<rparr>))
   \<and> main lib [] =
       Inr [\<lparr>command = [''fastapi'', ''dev'', ''main.py''],
             env_updates =
               [(''LETTUCEDETECT_MODEL'', ''KRLabsOrg/lettucedect-base-modernbert-en-v1''),
                (''LETTUCEDETECT_METHOD'', ''transformer'')]\<rparr>]"
proof (intro conjI allI impI)
  fix args assume parsed: "parse_args lib argv = Inr args"
  show "arg_method args = PyStr ''transformer''
      \<or> (strips_option_dashes lib \<and> arg_method args = PyList []
         \<and> (\<exists>f \<in> set [''--method'', ''--metho'', ''--meth'', ''--met'', ''--me''].
               f @ ''=--'' \<in> set argv)
         \<and> (\<exists>msg. main lib argv = Inl (Exception (TypeError msg))))"
  proof (cases "arg_method args = PyStr ''transformer''")
    case True
    then show ?thesis by simp
  next
    case False
    with parse_args_method [OF parsed]
    have strips: "strips_option_dashes lib" and empty: "arg_method args = PyList []"
      and given: "\<exists>f \<in> set [''--method'', ''--metho'', ''--meth'', ''--met'', ''--me''].
               f @ ''=--'' \<in> set argv"
      by blast+
    from run_fastapi_list [OF empty] obtain msg where "run_fastapi args = Inl (TypeError msg)"
      by blast
    with parsed have "main lib argv = Inl (Exception (TypeError msg))"
      by (simp add: main_def)
    with strips empty given show ?thesis by blast
  qed
next
  assume a: "flag \<in> set [''--method'', ''--metho'', ''--meth'', ''--met'', ''--me''] \<and>
      v \<noteq> ''transformer''"
  then have flag: "flag \<in> set [''--method'', ''--metho'', ''--meth'', ''--met'', ''--me'']"
    and v: "v \<noteq> ''transformer''" by simp_all
  have "\<not> is_argument flag"
    by (simp add: is_argument_def method_flag_optional [OF flag])
  with parse_args_prefix [of lib flag "v # post" pre] consume_method_following [OF flag v]
  obtain x where "parse_args lib (pre @ flag # v # post) = Inl x" by blast
  then show "\<exists>x. parse_args lib (pre @ flag # v # post) = Inl x \<and>
              main lib (pre @ flag # v # post) = Inl (Exit x)"
    using main_exits by blast
next
  assume a: "flag \<in> set [''--method'', ''--metho'', ''--meth'', ''--met'', ''--me''] \<and>
      v \<noteq> ''transformer''"
    and kept: "strips_option_dashes lib \<longrightarrow> v \<noteq> ''--''"
  from a have flag: "flag \<in> set [''--method'', ''--metho'', ''--meth'', ''--met'', ''--me'']"
    and v: "v \<noteq> ''transformer''" by simp_all
  have "\<not> is_argument (flag @ ''='' @ v)"
    unfolding is_argument_def method_flag_explicit [OF flag refl] by simp
  with parse_args_prefix [of lib "flag @ ''='' @ v" post pre]
    consume_method_explicit [OF flag v kept refl]
  obtain x where "parse_args lib (pre @ (flag @ ''='' @ v) # post) = Inl x" by blast
  then show "\<exists>x. parse_args lib (pre @ (flag @ ''='' @ v) # post) = Inl x \<and>
              main lib (pre @ (flag @ ''='' @ v) # post) = Inl (Exit x)"
    using main_exits by blast
next
  show empty: "parse_args lib [] = Inr defaults"
    by (simp add: parse_args_def)
  show "arg_method defaults = PyStr ''transformer''"
    by (simp add: defaults_def)
  have "parse_optional ''--method'' = Optional (Some MethodAction) ''--method'' None None"
    by (rule method_flag_optional) simp
  moreover have "parse_optional ''transformer'' = Positional"
    by (simp add: parse_optional_def)
  moreover from this have "is_argument ''transformer''"
    by (simp add: is_argument_def)
  moreover have "take_action lib MethodAction [''transformer''] defaults = Inr defaults"
    by (simp add: take_action_def get_values_def check_value_def choices_def defaults_def)
  ultimately show "parse_args lib [''--method'', ''transformer''] = Inr defaults"
    by (simp add: parse_args_def)
  show "main lib [] =
       Inr [\<lparr>command = [''fastapi'', ''dev'', ''main.py''],
             env_updates =
               [(''LETTUCEDETECT_MODEL'', ''KRLabsOrg/lettucedect-base-modernbert-en-v1''),
                (''LETTUCEDETECT_METHOD'', ''transformer'')]\<rparr>]"
    by (simp add: main_def empty run_fastapi_def fsencode_def defaults_def)
next
  assume m: "is_argument m"
  have model: "parse_optional ''--model'' = Optional (Some ModelAction) ''--model'' None None"
    by code_simp
  from m have pos: "parse_optional m = Positional" and dd: "m \<noteq> ''--''"
    by (simp_all add: is_argument_def)
  from dd have "take_action lib ModelAction [m] defaults = Inr (defaults\<lparr>arg_model := PyStr m\<rparr>)"
    by (simp add: take_action_def get_values_def check_value_def choices_def)
  with pos dd show "parse_args lib [''--model'', m] = Inr (defaults\<lparr>arg_model := PyStr m\<rparr>)"
    using m model by (simp add: parse_args_def)
qed

theorem method_choices_witness:
  "parse_args cpython_3_11_2 [''--model'', ''x''] = Inr (defaults\<lparr>arg_model := PyStr ''x''\<rparr>)
   \<and> arg_method (defaults\<lparr>arg_model := PyStr ''x''\<rparr>) = PyStr ''transformer''
   \<and> ''--method'' \<in> set [''--method'', ''--metho'', ''--meth'', ''--met'', ''--me'']
   \<and> ''bert'' \<noteq> ''transformer''
   \<and> ''bert'' \<noteq> ''--''
   \<and> parse_args cpython_3_11_2 [''--model'', ''x'', ''--method'', ''bert''] = Inl (SystemExit 2)
   \<and> main cpython_3_11_2 [''--model'', ''x'', ''--method'', ''bert''] = Inl (Exit (SystemExit 2))
   \<and> parse_args cpython_3_11_2 [''--model'', ''x'', ''--method=bert''] = Inl (SystemExit 2)
   \<and> main cpython_3_11_2 [''--model'', ''x'', ''--method=bert''] = Inl (Exit (SystemExit 2))
   \<and> is_argument ''x''
   \<and> \<not> strips_option_dashes cpython_3_11_10
   \<and> parse_args cpython_3_11_10 [''--method=--''] = Inl (SystemExit 2)
   \<and> main cpython_3_11_10 [''--method=--''] = Inl (Exit (SystemExit 2))"
proof -
  have flag: "''--method'' \<in> set [''--method'', ''--metho'', ''--meth'', ''--met'', ''--me'']"
    by simp
  have v: "''bert'' \<noteq> ''transformer''" "''bert'' \<noteq> ''--''"
    by simp_all
  have x: "is_argument ''x''"
    by (simp add: is_argument_def parse_optional_def)
  note T = method_choices [where lib = cpython_3_11_2 and argv = "[''--model'', ''x'']"
      and flag = "''--method''" and v = "''bert''" and pre = "[''--model'', ''x'']"
      and post = "[]" and m = "''x''"]
  from T flag v obtain e1 e2 where
    e1: "parse_args cpython_3_11_2 ([''--model'', ''x''] @ ''--method'' # ''bert'' # []) = Inl e1"
        "main cpython_3_11_2 ([''--model'', ''x''] @ ''--method'' # ''bert'' # []) = Inl (Exit e1)"
    and e2: "parse_args cpython_3_11_2 ([''--model'', ''x''] @ (''--method'' @ ''='' @ ''bert'') # [])
               = Inl e2"
        "main cpython_3_11_2 ([''--model'', ''x''] @ (''--method'' @ ''='' @ ''bert'') # [])
               = Inl (Exit e2)"
    by blast
  have c1: "parse_args cpython_3_11_2 [''--model'', ''x'', ''--method'', ''bert'']
              = Inl (SystemExit 2)"
    by code_simp
  have c2: "parse_args cpython_3_11_2 [''--model'', ''x'', ''--method=bert''] = Inl (SystemExit 2)"
    by code_simp
  from e1 c1
  have m1: "main cpython_3_11_2 [''--model'', ''x'', ''--method'', ''bert'']
              = Inl (Exit (SystemExit 2))"
    by simp
  from e2 c2
  have m2: "main cpython_3_11_2 [''--model'', ''x'', ''--method=bert''] = Inl (Exit (SystemExit 2))"
    by simp
  from T x
  have ok: "parse_args cpython_3_11_2 [''--model'', ''x'']
              = Inr (defaults\<lparr>arg_model := PyStr ''x''\<rparr>)"
    by blast
  have tr: "arg_method (defaults\<lparr>arg_model := PyStr ''x''\<rparr>) = PyStr ''transformer''"
    by (simp add: defaults_def)
  have kept: "\<not> strips_option_dashes cpython_3_11_10"
    by (simp add: cpython_3_11_10_def)
  have dashes: "''--'' \<noteq> ''transformer''"
    by simp
  note U = method_choices [where lib = cpython_3_11_10 and flag = "''--method''"
      and v = "''--''" and pre = "[]" and post = "[]"]
  from U flag dashes kept obtain e3 where
    e3: "parse_args cpython_3_11_10 ([] @ (''--method'' @ ''='' @ ''--'') # []) = Inl e3"
        "main cpython_3_11_10 ([] @ (''--method'' @ ''='' @ ''--'') # []) = Inl (Exit e3)"
    by blast
  have c3: "parse_args cpython_3_11_10 [''--method=--''] = Inl (SystemExit 2)"
    by code_simp
  from e3 c3 have m3: "main cpython_3_11_10 [''--method=--''] = Inl (Exit (SystemExit 2))"
    by simp
  from flag v c1 m1 c2 m2 x ok tr kept c3 m3 show ?thesis by blast
qed

text \<open>
  C10 as the spec states it fails: under CPython 3.11.2 the command line \<open>--method=--\<close> gives
  \<open>--method\<close> a value that is not \<open>'transformer'\<close>, and argument parsing does not fail: it
  returns a namespace with \<open>method = []\<close>. What stops \<open>main\<close> is the \<open>TypeError\<close> of
  \<open>subprocess.run\<close>.
\<close>

theorem method_dashes_counterexample:
  "''--'' \<noteq> ''transformer''
   \<and> parse_args cpython_3_11_2 [''--method=--'']
       = Inr \<lparr>arg_model = PyStr ''KRLabsOrg/lettucedect-base-modernbert-en-v1'',
              arg_method = PyList []\<rparr>
   \<and> main cpython_3_11_2 [''--method=--'']
       = Inl (Exception (TypeError ''expected str, bytes or os.PathLike object, not list''))"
  by code_simp

end
